theory Spec2Isabelle
  imports Complex_Main "HOL-Library.AList" "HOL-Library.Sublist"
begin

section \<open>Values of the report builder\<close>

text \<open>
  The report builder (\<^verbatim>\<open>src/ReportBuilder.tsx\<close>) works on rows of type
  \<^verbatim>\<open>Record<string, string | number>\<close>. A JavaScript number is modelled as a
  rational or one of the three special values. Addition rounds its result by a rounding
  function that is a parameter of the model; the sign of zero is not modelled, and
  \<^verbatim>\<open>Number\<close> gives a numeric text its exact decimal value. A string is a list of code
  units, of which the 8-bit ones are represented. A property that is read but absent
  is \<^verbatim>\<open>undefined\<close>.
\<close>

datatype jsnum = NaN | PInf | NInf | Fin rat

datatype jsval = Str string | Num jsnum | Undefined

type_synonym Row = "(string \<times> jsval) list"

text \<open>\<^verbatim>\<open>r[k]\<close>: reading a property; \<^verbatim>\<open>r[k] = v\<close>: writing it, the key keeping its
  place when it is there already and going to the end otherwise.\<close>

definition get :: "Row \<Rightarrow> string \<Rightarrow> jsval" where
  "get r k = (case map_of r k of None \<Rightarrow> Undefined | Some v \<Rightarrow> v)"

definition put :: "Row \<Rightarrow> string \<Rightarrow> jsval \<Rightarrow> Row" where
  "put r k v = AList.update k v r"

subsection \<open>Arithmetic and comparison of numbers\<close>

text \<open>
  \<^verbatim>\<open>a + b\<close> on numbers. The sum of two finite doubles is their exact sum rounded to a
  double, or an infinity when it is out of range: the rounding \<open>rnd\<close> is a parameter,
  and what is proved of the sums holds for every rounding.
\<close>

fun js_add :: "(rat \<Rightarrow> jsnum) \<Rightarrow> jsnum \<Rightarrow> jsnum \<Rightarrow> jsnum" where
  "js_add rnd NaN _ = NaN"
| "js_add rnd _ NaN = NaN"
| "js_add rnd PInf NInf = NaN"
| "js_add rnd NInf PInf = NaN"
| "js_add rnd PInf _ = PInf"
| "js_add rnd _ PInf = PInf"
| "js_add rnd NInf _ = NInf"
| "js_add rnd _ NInf = NInf"
| "js_add rnd (Fin a) (Fin b) = rnd (a + b)"

text \<open>\<^verbatim>\<open>a < b\<close> on numbers: false as soon as one side is \<^verbatim>\<open>NaN\<close>.\<close>

fun js_lt :: "jsnum \<Rightarrow> jsnum \<Rightarrow> bool" where
  "js_lt NaN _ = False"
| "js_lt _ NaN = False"
| "js_lt PInf _ = False"
| "js_lt _ PInf = True"
| "js_lt _ NInf = False"
| "js_lt NInf _ = True"
| "js_lt (Fin a) (Fin b) = (a < b)"

fun js_le :: "jsnum \<Rightarrow> jsnum \<Rightarrow> bool" where
  "js_le NaN _ = False"
| "js_le _ NaN = False"
| "js_le _ PInf = True"
| "js_le PInf _ = False"
| "js_le NInf _ = True"
| "js_le _ NInf = False"
| "js_le (Fin a) (Fin b) = (a \<le> b)"

definition js_gt :: "jsnum \<Rightarrow> jsnum \<Rightarrow> bool" where
  "js_gt a b = js_lt b a"

definition js_ge :: "jsnum \<Rightarrow> jsnum \<Rightarrow> bool" where
  "js_ge a b = js_le b a"

text \<open>\<^verbatim>\<open>Math.min\<close> and \<^verbatim>\<open>Math.max\<close> of two numbers: \<^verbatim>\<open>NaN\<close> as soon as one
  argument is.\<close>

definition Math_min :: "jsnum \<Rightarrow> jsnum \<Rightarrow> jsnum" where
  "Math_min a b = (if a = NaN \<or> b = NaN then NaN else if js_le a b then a else b)"

definition Math_max :: "jsnum \<Rightarrow> jsnum \<Rightarrow> jsnum" where
  "Math_max a b = (if a = NaN \<or> b = NaN then NaN else if js_le a b then b else a)"

subsection \<open>\<^verbatim>\<open>Number(string)\<close>\<close>

definition isWhite :: "char \<Rightarrow> bool" where
  "isWhite c = (c \<in> set [CHR 0x09, CHR 0x0A, CHR 0x0B, CHR 0x0C, CHR 0x0D, CHR 0x20, CHR 0xA0])"

definition trim :: "string \<Rightarrow> string" where
  "trim s = rev (dropWhile isWhite (rev (dropWhile isWhite s)))"

definition isDigit :: "char \<Rightarrow> bool" where
  "isDigit c = (c \<in> set ''0123456789'')"

definition digitVal :: "char \<Rightarrow> nat" where
  "digitVal c =
     (let n = (of_char c :: nat) in
      if 48 \<le> n \<and> n \<le> 57 then n - 48
      else if 97 \<le> n \<and> n \<le> 102 then n - 87
      else if 65 \<le> n \<and> n \<le> 70 then n - 55
      else 0)"

definition isDigitOf :: "nat \<Rightarrow> char \<Rightarrow> bool" where
  "isDigitOf base c =
     ((isDigit c \<or> c \<in> set ''abcdefABCDEF'') \<and> digitVal c < base)"

definition digitsVal :: "nat \<Rightarrow> string \<Rightarrow> nat" where
  "digitsVal base s = foldl (\<lambda>n c. base * n + digitVal c) 0 s"

text \<open>The exponent part of a decimal literal: nothing, or \<^verbatim>\<open>e\<close>, an optional sign and
  at least one digit.\<close>

definition parseExponent :: "string \<Rightarrow> int option" where
  "parseExponent s =
     (case s of
        [] \<Rightarrow> Some 0
      | c # t \<Rightarrow>
          if c = CHR ''e'' \<or> c = CHR ''E'' then
            (let (neg, ds) =
               (case t of
                  [] \<Rightarrow> (False, [])
                | d # u \<Rightarrow> if d = CHR ''+'' then (False, u)
                           else if d = CHR ''-'' then (True, u) else (False, t))
             in if ds \<noteq> [] \<and> list_all isDigit ds
                then Some (if neg then - int (digitsVal 10 ds) else int (digitsVal 10 ds))
                else None)
          else None)"

definition scale10 :: "rat \<Rightarrow> int \<Rightarrow> rat" where
  "scale10 q e = (if 0 \<le> e then q * 10 ^ nat e else q / 10 ^ nat (- e))"

definition parseUnsignedDecimal :: "string \<Rightarrow> rat option" where
  "parseUnsignedDecimal s =
     (let ip = takeWhile isDigit s;
          r1 = dropWhile isDigit s;
          (fp, r2) =
            (case r1 of
               [] \<Rightarrow> ([], [])
             | c # t \<Rightarrow> if c = CHR ''.'' then (takeWhile isDigit t, dropWhile isDigit t)
                        else ([], r1))
      in if ip = [] \<and> fp = [] then None
         else (case parseExponent r2 of
                 None \<Rightarrow> None
               | Some e \<Rightarrow>
                   Some (scale10 (of_nat (digitsVal 10 (ip @ fp)) / 10 ^ length fp) e)))"

definition parseNonDecimal :: "string \<Rightarrow> rat option" where
  "parseNonDecimal s =
     (case s of
        z # x # ds \<Rightarrow>
          if z = CHR ''0'' \<and> ds \<noteq> [] then
            (let base = (if x = CHR ''x'' \<or> x = CHR ''X'' then 16
                         else if x = CHR ''o'' \<or> x = CHR ''O'' then 8
                         else if x = CHR ''b'' \<or> x = CHR ''B'' then 2 else 0)
             in if base \<noteq> 0 \<and> list_all (isDigitOf base) ds
                then Some (of_nat (digitsVal base ds)) else None)
          else None
      | _ \<Rightarrow> None)"

definition parseUnsigned :: "string \<Rightarrow> jsnum" where
  "parseUnsigned s =
     (if s = ''Infinity'' then PInf
      else (case parseUnsignedDecimal s of None \<Rightarrow> NaN | Some q \<Rightarrow> Fin q))"

definition js_neg :: "jsnum \<Rightarrow> jsnum" where
  "js_neg n = (case n of NaN \<Rightarrow> NaN | PInf \<Rightarrow> NInf | NInf \<Rightarrow> PInf | Fin q \<Rightarrow> Fin (- q))"

definition Number_of_string :: "string \<Rightarrow> jsnum" where
  "Number_of_string s =
     (let t = trim s in
      if t = [] then Fin 0
      else (case parseNonDecimal t of
              Some q \<Rightarrow> Fin q
            | None \<Rightarrow>
                (case t of
                   c # u \<Rightarrow> if c = CHR ''+'' then parseUnsigned u
                              else if c = CHR ''-'' then js_neg (parseUnsigned u)
                              else parseUnsigned t
                 | [] \<Rightarrow> NaN)))"

text \<open>\<^verbatim>\<open>Number(v)\<close> on a value read from a row.\<close>

definition Number :: "jsval \<Rightarrow> jsnum" where
  "Number v = (case v of Str s \<Rightarrow> Number_of_string s | Num n \<Rightarrow> n | Undefined \<Rightarrow> NaN)"

subsection \<open>\<^verbatim>\<open>String(number)\<close>\<close>

text \<open>
  A finite number is printed in positional decimal notation: the integer part, and the
  fraction digits when there are some (at most twenty of them here). JavaScript prints
  magnitudes from \<open>10\<^sup>2\<^sup>1\<close> on and below \<open>10\<^sup>-\<^sup>6\<close> with an exponent; that notation
  is not modelled.
\<close>

definition digitChar :: "nat \<Rightarrow> char" where
  "digitChar d = char_of (48 + d mod 10)"

fun showNatFuel :: "nat \<Rightarrow> nat \<Rightarrow> string \<Rightarrow> string" where
  "showNatFuel 0 n acc = acc"
| "showNatFuel (Suc fuel) n acc =
     (if n < 10 then digitChar n # acc
      else showNatFuel fuel (n div 10) (digitChar (n mod 10) # acc))"

definition showNat :: "nat \<Rightarrow> string" where
  "showNat n = showNatFuel (Suc n) n []"

fun fracDigits :: "nat \<Rightarrow> nat \<Rightarrow> nat \<Rightarrow> string" where
  "fracDigits 0 r d = []"
| "fracDigits (Suc fuel) r d =
     (if r = 0 then [] else digitChar ((r * 10) div d) # fracDigits fuel ((r * 10) mod d) d)"

definition showRat :: "rat \<Rightarrow> string" where
  "showRat q =
     (let (n, d) = quotient_of q;
          a = nat \<bar>n\<bar>; b = nat d;
          body = showNat (a div b) @
                 (if a mod b = 0 then [] else CHR ''.'' # fracDigits 20 (a mod b) b)
      in if n < 0 then CHR ''-'' # body else body)"

definition String_of_number :: "jsnum \<Rightarrow> string" where
  "String_of_number n =
     (case n of NaN \<Rightarrow> ''NaN'' | PInf \<Rightarrow> ''Infinity'' | NInf \<Rightarrow> ''-Infinity''
      | Fin q \<Rightarrow> showRat q)"

text \<open>\<^verbatim>\<open>String(v)\<close>.\<close>

definition String :: "jsval \<Rightarrow> string" where
  "String v = (case v of Str s \<Rightarrow> s | Num n \<Rightarrow> String_of_number n | Undefined \<Rightarrow> ''undefined'')"

subsection \<open>String operations\<close>

text \<open>\<^verbatim>\<open>toLowerCase\<close> on the 8-bit code units: the letters A to Z, and the capital
  letters of Latin-1.\<close>

definition lowerChar :: "char \<Rightarrow> char" where
  "lowerChar c =
     (let n = (of_char c :: nat) in
      if 65 \<le> n \<and> n \<le> 90 then char_of (n + 32)
      else if n = 215 then c
      else if 192 \<le> n \<and> n \<le> 222 then char_of (n + 32)
      else c)"

definition toLowerCase :: "string \<Rightarrow> string" where
  "toLowerCase s = map lowerChar s"

fun startsWith :: "string \<Rightarrow> string \<Rightarrow> bool" where
  "startsWith s [] = True"
| "startsWith [] (p # ps) = False"
| "startsWith (c # cs) (p # ps) = (c = p \<and> startsWith cs ps)"

definition endsWith :: "string \<Rightarrow> string \<Rightarrow> bool" where
  "endsWith s p = startsWith (rev s) (rev p)"

fun js_includes :: "string \<Rightarrow> string \<Rightarrow> bool" where
  "js_includes [] p = (p = [])"
| "js_includes (c # cs) p = (startsWith (c # cs) p \<or> js_includes cs p)"

text \<open>\<^verbatim>\<open>s.split(",")\<close>: the pieces between the separators, one piece for a string
  without separator (the empty string too).\<close>

fun split :: "char \<Rightarrow> string \<Rightarrow> string list" where
  "split sep [] = [[]]"
| "split sep (c # cs) =
     (case split sep cs of
        [] \<Rightarrow> (if c = sep then [[], []] else [[c]])
      | p # ps \<Rightarrow> (if c = sep then [] # p # ps else (c # p) # ps))"

text \<open>\<^verbatim>\<open>xs.join(sep)\<close> on strings.\<close>

fun join :: "string \<Rightarrow> string list \<Rightarrow> string" where
  "join sep [] = []"
| "join sep [x] = x"
| "join sep (x # y # ys) = x @ sep @ join sep (y # ys)"

section \<open>The filter evaluator\<close>

record FilterDef =
  f_id :: string
  f_attribute :: string
  f_operator :: string
  f_value :: string

text \<open>\<^verbatim>\<open>safe\<close> turns an absent value into the empty string.\<close>

definition safe :: "jsval \<Rightarrow> jsval" where
  "safe v = (case v of Undefined \<Rightarrow> Str [] | _ \<Rightarrow> v)"

text \<open>\<^verbatim>\<open>const [a, b] = parts\<close>: an element that is not there is \<^verbatim>\<open>undefined\<close>,
  which \<^verbatim>\<open>Number\<close> takes to \<^verbatim>\<open>NaN\<close> and \<^verbatim>\<open>new Date\<close> to an invalid date.\<close>

definition elem :: "string list \<Rightarrow> nat \<Rightarrow> string option" where
  "elem parts i = (if i < length parts then Some (parts ! i) else None)"

definition Number_opt :: "string option \<Rightarrow> jsnum" where
  "Number_opt a = (case a of None \<Rightarrow> NaN | Some s \<Rightarrow> Number_of_string s)"

text \<open>
  \<^verbatim>\<open>new Date(s)\<close>, read through its time value in comparisons (\<^verbatim>\<open>NaN\<close> for an
  invalid date). What \<^verbatim>\<open>Date\<close> makes of a string is left to the JavaScript engine
  for all but the ISO forms, so the evaluator takes the parser \<open>dp\<close> as a parameter.
\<close>

definition newDate :: "(string \<Rightarrow> jsnum) \<Rightarrow> string option \<Rightarrow> jsnum" where
  "newDate dp a = (case a of None \<Rightarrow> NaN | Some s \<Rightarrow> dp s)"

text \<open>The predicate \<^verbatim>\<open>applyFilters\<close> passes to \<^verbatim>\<open>filters.every\<close>: one \<^verbatim>\<open>switch\<close> on the
  operator.\<close>

definition filterHolds :: "(string \<Rightarrow> jsnum) \<Rightarrow> Row \<Rightarrow> FilterDef \<Rightarrow> bool" where
  "filterHolds dp row f =
     (let v = get row (f_attribute f); val = f_value f; op = f_operator f in
      if op = ''contains'' then js_includes (toLowerCase (String (safe v))) (toLowerCase val)
      else if op = ''startsWith'' then startsWith (toLowerCase (String (safe v))) (toLowerCase val)
      else if op = ''endsWith'' then endsWith (toLowerCase (String (safe v))) (toLowerCase val)
      else if op = ''='' then String (safe v) = val
      else if op = ''!='' then String (safe v) \<noteq> val
      else if op = ''>'' then js_gt (Number v) (Number_of_string val)
      else if op = ''>='' then js_ge (Number v) (Number_of_string val)
      else if op = ''<'' then js_lt (Number v) (Number_of_string val)
      else if op = ''<='' then js_le (Number v) (Number_of_string val)
      else if op = ''between'' then
        (let parts = split CHR '','' val;
             lo = Number_opt (elem parts 0);
             hi = Number_opt (elem parts 1)
         in js_ge (Number v) (Math_min lo hi) \<and> js_le (Number v) (Math_max lo hi))
      else if op = ''on'' then String v = val
      else if op = ''before'' then js_lt (dp (String v)) (dp val)
      else if op = ''after'' then js_gt (dp (String v)) (dp val)
      else if op = ''range'' then
        (let parts = split CHR '','' val;
             a = elem parts 0;
             b = elem parts 1
         in js_ge (dp (String v)) (newDate dp a) \<and> js_le (dp (String v)) (newDate dp b))
      else True)"

definition applyFilters :: "(string \<Rightarrow> jsnum) \<Rightarrow> Row list \<Rightarrow> FilterDef list \<Rightarrow> Row list" where
  "applyFilters dp rows filters =
     (if filters = [] then rows
      else filter (\<lambda>row. list_all (filterHolds dp row) filters) rows)"

text \<open>The operators the \<^verbatim>\<open>switch\<close> has a case for.\<close>

definition operators :: "string list" where
  "operators = [''contains'', ''startsWith'', ''endsWith'', ''='', ''!='', ''>'', ''>='',
     ''<'', ''<='', ''between'', ''on'', ''before'', ''after'', ''range'']"

subsection \<open>A date parser to evaluate with\<close>

text \<open>
  The date-only ISO form \<^verbatim>\<open>YYYY-MM-DD\<close>, which \<^verbatim>\<open>genDate\<close> writes: midnight UTC of that
  day in milliseconds since 1970-01-01; every other string is an invalid date here.
\<close>

definition daysFromCivil :: "int \<Rightarrow> int \<Rightarrow> int \<Rightarrow> int" where
  "daysFromCivil y m d =
     (let y1 = (if m \<le> 2 then y - 1 else y);
          era = y1 div 400;
          yoe = y1 - era * 400;
          doy = (153 * (if 2 < m then m - 3 else m + 9) + 2) div 5 + d - 1;
          doe = yoe * 365 + yoe div 4 - yoe div 100 + doy
      in era * 146097 + doe - 719468)"

definition daysInMonth :: "int \<Rightarrow> int \<Rightarrow> int" where
  "daysInMonth y m =
     (if m = 2 then
        (if y mod 400 = 0 then 29 else if y mod 100 = 0 then 28
         else if y mod 4 = 0 then 29 else 28)
      else if m = 4 \<or> m = 6 \<or> m = 9 \<or> m = 11 then 30 else 31)"

definition isoDateOnly :: "string \<Rightarrow> jsnum" where
  "isoDateOnly s =
     (if length s = 10 \<and> s ! 4 = CHR ''-'' \<and> s ! 7 = CHR ''-''
         \<and> list_all isDigit (take 4 s) \<and> list_all isDigit (take 2 (drop 5 s))
         \<and> list_all isDigit (drop 8 s)
      then (let y = int (digitsVal 10 (take 4 s));
                m = int (digitsVal 10 (take 2 (drop 5 s)));
                d = int (digitsVal 10 (drop 8 s))
            in if 1 \<le> m \<and> m \<le> 12 \<and> 1 \<le> d \<and> d \<le> daysInMonth y m
               then Fin (of_int (daysFromCivil y m d * 86400000)) else NaN)
      else NaN)"

section \<open>The aggregation engine\<close>

datatype NumericFunc = F_sum | F_avg | F_min | F_max | F_count

fun funcName :: "NumericFunc \<Rightarrow> string" where
  "funcName F_sum = ''sum''"
| "funcName F_avg = ''avg''"
| "funcName F_min = ''min''"
| "funcName F_max = ''max''"
| "funcName F_count = ''count''"

record AggregationDef =
  a_attribute :: string
  a_func :: NumericFunc

text \<open>\<^verbatim>\<open>Array.prototype.join\<close> writes an \<^verbatim>\<open>undefined\<close> element as the empty string.\<close>

definition joinElem :: "jsval \<Rightarrow> string" where
  "joinElem v = (case v of Undefined \<Rightarrow> [] | _ \<Rightarrow> String v)"

definition keySep :: string where
  "keySep = [CHR ''|'', CHR 0xA7, CHR ''|'']"

definition keyFn :: "string list \<Rightarrow> Row \<Rightarrow> string" where
  "keyFn groupBy r = join keySep (map (\<lambda>g. joinElem (get r g)) groupBy)"

text \<open>The column names: \<^verbatim>\<open>`__sum_${a}`\<close>, \<^verbatim>\<open>`__cnt_${a}`\<close> and \<^verbatim>\<open>`${func}(${a})`\<close>.\<close>

definition sumKey :: "string \<Rightarrow> string" where
  "sumKey a = ''__sum_'' @ a"

definition cntKey :: "string \<Rightarrow> string" where
  "cntKey a = ''__cnt_'' @ a"

definition col :: "NumericFunc \<Rightarrow> string \<Rightarrow> string" where
  "col fn a = funcName fn @ ''('' @ a @ '')''"

text \<open>The operator \<^verbatim>\<open>+\<close> behind \<^verbatim>\<open>+=\<close>: concatenation when a side is a string,
  addition of numbers otherwise.\<close>

definition js_plus :: "(rat \<Rightarrow> jsnum) \<Rightarrow> jsval \<Rightarrow> jsval \<Rightarrow> jsval" where
  "js_plus rnd a b =
     (case a of
        Str s \<Rightarrow> Str (s @ String b)
      | _ \<Rightarrow> (case b of
                Str t \<Rightarrow> Str (String a @ t)
              | _ \<Rightarrow> Num (js_add rnd (Number a) (Number b))))"

text \<open>The first \<^verbatim>\<open>aggregations.forEach\<close>: the start value of each accumulator in the
  row of a new group.\<close>

definition initAgg :: "Row \<Rightarrow> AggregationDef \<Rightarrow> Row" where
  "initAgg base a =
     (if a_func a = F_avg then
        put (put base (sumKey (a_attribute a)) (Num (Fin 0))) (cntKey (a_attribute a)) (Num (Fin 0))
      else if a_func a = F_count then put base (col F_count (a_attribute a)) (Num (Fin 0))
      else if a_func a = F_sum then put base (col F_sum (a_attribute a)) (Num (Fin 0))
      else if a_func a = F_min then put base (col F_min (a_attribute a)) (Num PInf)
      else if a_func a = F_max then put base (col F_max (a_attribute a)) (Num NInf)
      else base)"

definition mkBase :: "string list \<Rightarrow> AggregationDef list \<Rightarrow> Row \<Rightarrow> Row" where
  "mkBase groupBy aggregations r =
     foldl initAgg (foldl (\<lambda>base g. put base g (get r g)) [] groupBy) aggregations"

text \<open>The second \<^verbatim>\<open>aggregations.forEach\<close>: what row \<open>r\<close> adds to the accumulators of
  its group.\<close>

definition accumulate :: "(rat \<Rightarrow> jsnum) \<Rightarrow> Row \<Rightarrow> Row \<Rightarrow> AggregationDef \<Rightarrow> Row" where
  "accumulate rnd r gobj a =
     (let val = Number (get r (a_attribute a)) in
      if a_func a = F_count then
        put gobj (col F_count (a_attribute a))
          (js_plus rnd (get gobj (col F_count (a_attribute a))) (Num (Fin 1)))
      else if a_func a = F_sum then
        put gobj (col F_sum (a_attribute a))
          (js_plus rnd (get gobj (col F_sum (a_attribute a))) (Num val))
      else if a_func a = F_min then
        put gobj (col F_min (a_attribute a))
          (Num (Math_min (Number (get gobj (col F_min (a_attribute a)))) val))
      else if a_func a = F_max then
        put gobj (col F_max (a_attribute a))
          (Num (Math_max (Number (get gobj (col F_max (a_attribute a)))) val))
      else if a_func a = F_avg then
        (let g1 = put gobj (sumKey (a_attribute a))
                    (js_plus rnd (get gobj (sumKey (a_attribute a))) (Num val))
         in put g1 (cntKey (a_attribute a))
              (js_plus rnd (get g1 (cntKey (a_attribute a))) (Num (Fin 1))))
      else gobj)"

text \<open>
  The \<^verbatim>\<open>Map\<close> of groups is an association list in insertion order. One turn of the loop
  over the rows: a key seen for the first time gets its base row, then the row of the
  group is read back and updated in place. (The \<^verbatim>\<open>get\<close> follows a \<^verbatim>\<open>set\<close> of the
  same key, so its \<open>None\<close> branch is never taken.)
\<close>

definition step :: "(rat \<Rightarrow> jsnum) \<Rightarrow> string list \<Rightarrow> AggregationDef list
    \<Rightarrow> (string \<times> Row) list \<Rightarrow> Row \<Rightarrow> (string \<times> Row) list" where
  "step rnd groupBy aggregations groups r =
     (let k = keyFn groupBy r;
          groups1 = (if map_of groups k = None
                     then AList.update k (mkBase groupBy aggregations r) groups
                     else groups)
      in case map_of groups1 k of
           None \<Rightarrow> groups1
         | Some gobj \<Rightarrow> AList.update k (foldl (accumulate rnd r) gobj aggregations) groups1)"

definition groupsLoop :: "(rat \<Rightarrow> jsnum) \<Rightarrow> Row list \<Rightarrow> string list \<Rightarrow> AggregationDef list
    \<Rightarrow> (string \<times> Row) list" where
  "groupsLoop rnd rows groupBy aggregations = foldl (step rnd groupBy aggregations) [] rows"

text \<open>
  The closing loops stand under the comment \<^verbatim>\<open>finalize avg + clean infinities\<close>. They
  visit every key \<^verbatim>\<open>sk\<close> of every group row, and the body of the inner loop is
  \<^verbatim>\<open>if (sk.startswith if False else False):\<close> followed by \<^verbatim>\<open>pass\<close>. These two lines are
  not TypeScript: a strict parser rejects them, and the TypeScript compiler reports
  them and still emits the loops with the statement \<^verbatim>\<open>pass;\<close> in the inner body. In what
  runs, that body reads a name that is not defined, so it throws \<^verbatim>\<open>ReferenceError\<close> at
  the first key it visits. Nothing is finalized, and the function returns only when no
  group row has a key.
\<close>

datatype error = ReferenceError

fun visitKeys :: "string list \<Rightarrow> error + unit" where
  "visitKeys [] = Inr ()"
| "visitKeys (sk # sks) = Inl ReferenceError"

fun finalize :: "(string \<times> Row) list \<Rightarrow> error + unit" where
  "finalize [] = Inr ()"
| "finalize ((k, gobj) # groups) =
     (case visitKeys (map fst gobj) of
        Inl e \<Rightarrow> Inl e
      | Inr _ \<Rightarrow> finalize groups)"

definition groupAndAggregate :: "(rat \<Rightarrow> jsnum) \<Rightarrow> Row list \<Rightarrow> string list \<Rightarrow> AggregationDef list
    \<Rightarrow> error + Row list" where
  "groupAndAggregate rnd rows groupBy aggregations =
     (let groups = groupsLoop rnd rows groupBy aggregations
      in case finalize groups of
           Inl e \<Rightarrow> Inl e
         | Inr _ \<Rightarrow> Inr (map snd groups))"

section \<open>The query text generator\<close>

datatype Direction = ASC | DESC

fun dirName :: "Direction \<Rightarrow> string" where
  "dirName ASC = ''ASC''"
| "dirName DESC = ''DESC''"

record SortDef =
  s_attribute :: string
  s_direction :: Direction

text \<open>\<^verbatim>\<open>a.func.toUpperCase()\<close>, on the five function names.\<close>

definition upperChar :: "char \<Rightarrow> char" where
  "upperChar c =
     (let n = (of_char c :: nat) in if 97 \<le> n \<and> n \<le> 122 then char_of (n - 32) else c)"

definition toUpperCase :: "string \<Rightarrow> string" where
  "toUpperCase s = map upperChar s"

definition sq :: string where
  "sq = [CHR 0x27]"

definition bq :: string where
  "bq = [CHR 0x60]"

text \<open>\<^verbatim>\<open>`${a}`\<close> for an element of a destructured array: the text \<^verbatim>\<open>undefined\<close> when the
  element is not there.\<close>

definition tmpl :: "string option \<Rightarrow> string" where
  "tmpl a = (case a of None \<Rightarrow> ''undefined'' | Some s \<Rightarrow> s)"

definition whereClause :: "FilterDef \<Rightarrow> string" where
  "whereClause f =
     (let cl = f_attribute f; op = f_operator f;
          val = (if js_includes (f_value f) '' '' \<or> op = ''contains''
                 then sq @ f_value f @ sq else f_value f)
      in if op = ''contains'' then cl @ '' LIKE '' @ sq @ ''%'' @ f_value f @ ''%'' @ sq
         else if op = ''startsWith'' then cl @ '' LIKE '' @ sq @ f_value f @ ''%'' @ sq
         else if op = ''endsWith'' then cl @ '' LIKE '' @ sq @ ''%'' @ f_value f @ sq
         else if op = ''between'' then
           (let parts = split CHR '','' (f_value f)
            in cl @ '' BETWEEN '' @ tmpl (elem parts 0) @ '' AND '' @ tmpl (elem parts 1))
         else if op = ''range'' then
           (let parts = split CHR '','' (f_value f)
            in cl @ '' BETWEEN '' @ sq @ tmpl (elem parts 0) @ sq @ '' AND '' @ sq
                 @ tmpl (elem parts 1) @ sq)
         else if op = ''on'' then cl @ '' = '' @ sq @ f_value f @ sq
         else if op = ''before'' then cl @ '' < '' @ sq @ f_value f @ sq
         else if op = ''after'' then cl @ '' > '' @ sq @ f_value f @ sq
         else cl @ '' '' @ op @ '' '' @ val)"

definition sqlPreview :: "string \<Rightarrow> string list \<Rightarrow> FilterDef list \<Rightarrow> string list
    \<Rightarrow> AggregationDef list \<Rightarrow> SortDef \<Rightarrow> string" where
  "sqlPreview dataset attributes filters groupBy aggregations sortSpec =
     (let cols =
            (if attributes \<noteq> [] then join '', '' attributes
             else if groupBy \<noteq> [] \<or> aggregations \<noteq> [] then
               join '', ''
                 (groupBy @
                  map (\<lambda>a. toUpperCase (funcName (a_func a)) @ ''('' @ a_attribute a @ '') AS ''
                         @ bq @ funcName (a_func a) @ ''('' @ a_attribute a @ '')'' @ bq)
                    aggregations)
             else ''*'');
          wh = join '' AND '' (map whereClause filters);
          grp = (if groupBy \<noteq> [] then '' GROUP BY '' @ join '', '' groupBy else []);
          ord = (if s_attribute sortSpec \<noteq> []
                 then '' ORDER BY '' @ s_attribute sortSpec @ '' '' @ dirName (s_direction sortSpec)
                 else [])
      in ''SELECT '' @ cols @ '' FROM '' @ dataset
           @ (if wh \<noteq> [] then '' WHERE '' @ wh else []) @ grp @ ord @ '' LIMIT 100;'')"

section \<open>The delimited text serializer\<close>

definition comma :: char where
  "comma = CHR '',''"

definition dquote :: char where
  "dquote = CHR 0x22"

definition newline :: char where
  "newline = CHR 0x0A"

text \<open>\<^verbatim>\<open>val.replaceAll('"', '""')\<close>.\<close>

definition doubleQuotes :: "string \<Rightarrow> string" where
  "doubleQuotes val = concat (map (\<lambda>c. if c = dquote then [dquote, dquote] else [c]) val)"

text \<open>The text of one cell: \<^verbatim>\<open>String(r[c] ?? "")\<close>.\<close>

definition cellText :: "Row \<Rightarrow> string \<Rightarrow> string" where
  "cellText r c = String (case get r c of Undefined \<Rightarrow> Str [] | v \<Rightarrow> v)"

definition csvField :: "string \<Rightarrow> string" where
  "csvField val =
     (if js_includes val [comma] \<or> js_includes val [dquote]
      then [dquote] @ doubleQuotes val @ [dquote] else val)"

definition toCSV :: "Row list \<Rightarrow> string list \<Rightarrow> string" where
  "toCSV rows columns =
     (let header = join [comma] columns;
          content = join [newline]
            (map (\<lambda>r. join [comma] (map (\<lambda>c. csvField (cellText r c)) columns)) rows)
      in header @ [newline] @ content)"

section \<open>The preview: projection, sort and limit\<close>

datatype DataType = T_string | T_number | T_date | T_currency

record AttributeDef =
  at_name :: string
  at_label :: string
  at_type :: DataType

record Preview =
  p_rows :: "Row list"
  p_columns :: "string list"

text \<open>The operator \<^verbatim>\<open>>\<close> on two values: by code units when both are strings, as
  numbers otherwise.\<close>

fun str_lt :: "string \<Rightarrow> string \<Rightarrow> bool" where
  "str_lt [] [] = False"
| "str_lt [] (y # ys) = True"
| "str_lt (x # xs) [] = False"
| "str_lt (x # xs) (y # ys) =
     ((of_char x :: nat) < of_char y \<or> (x = y \<and> str_lt xs ys))"

definition js_gt_val :: "jsval \<Rightarrow> jsval \<Rightarrow> bool" where
  "js_gt_val a b =
     (case a of
        Str s \<Rightarrow> (case b of Str t \<Rightarrow> str_lt t s | _ \<Rightarrow> js_gt (Number a) (Number b))
      | _ \<Rightarrow> js_gt (Number a) (Number b))"

text \<open>The comparator given to \<^verbatim>\<open>sort\<close>.\<close>

definition sortCmp :: "SortDef \<Rightarrow> Row \<Rightarrow> Row \<Rightarrow> int" where
  "sortCmp sortSpec a b =
     (let dir = (if s_direction sortSpec = DESC then - 1 else 1)
      in if js_gt_val (get a (s_attribute sortSpec)) (get b (s_attribute sortSpec)) then dir else - dir)"

text \<open>\<^verbatim>\<open>rows.slice(0, n)\<close>; a negative \<open>n\<close> counts from the end.\<close>

definition slice0 :: "'a list \<Rightarrow> int \<Rightarrow> 'a list" where
  "slice0 xs n = (if n < 0 then take (nat (int (length xs) + n)) xs else take (nat n) xs)"

text \<open>
  The rows before the limit: none when \<^verbatim>\<open>groupAndAggregate\<close> throws. The comparator
  never answers 0, so the order in which \<^verbatim>\<open>Array.prototype.sort\<close> leaves rows that
  compare alike is up to the engine: the sorting function is the parameter \<open>srt\<close>.
\<close>

definition previewRows :: "(rat \<Rightarrow> jsnum) \<Rightarrow> ((Row \<Rightarrow> Row \<Rightarrow> int) \<Rightarrow> Row list \<Rightarrow> Row list)
    \<Rightarrow> Row list \<Rightarrow> string list \<Rightarrow> string list \<Rightarrow> AggregationDef list \<Rightarrow> SortDef
    \<Rightarrow> error + Row list" where
  "previewRows rnd srt filteredRows columns groupBy aggregations sortSpec =
     (let isAggregated = (groupBy \<noteq> [] \<or> aggregations \<noteq> []);
          res = (if isAggregated then groupAndAggregate rnd filteredRows groupBy aggregations
                 else Inr (map (\<lambda>r. foldl (\<lambda>obj c. put obj c (get r c)) [] columns) filteredRows))
      in case res of
           Inl e \<Rightarrow> Inl e
         | Inr rows \<Rightarrow> Inr (if s_attribute sortSpec \<noteq> [] then srt (sortCmp sortSpec) rows else rows))"

definition previewColumns :: "string list \<Rightarrow> AttributeDef list \<Rightarrow> string list
    \<Rightarrow> AggregationDef list \<Rightarrow> string list" where
  "previewColumns selectedAttributes datasetAttributes groupBy aggregations =
     (if groupBy \<noteq> [] \<or> aggregations \<noteq> []
      then groupBy @ map (\<lambda>a. funcName (a_func a) @ ''('' @ a_attribute a @ '')'') aggregations
      else if selectedAttributes \<noteq> [] then selectedAttributes
      else map at_name (take 6 datasetAttributes))"

definition preview :: "(rat \<Rightarrow> jsnum) \<Rightarrow> ((Row \<Rightarrow> Row \<Rightarrow> int) \<Rightarrow> Row list \<Rightarrow> Row list) \<Rightarrow> Row list
    \<Rightarrow> string list \<Rightarrow> AttributeDef list \<Rightarrow> string list \<Rightarrow> AggregationDef list \<Rightarrow> SortDef \<Rightarrow> int
    \<Rightarrow> error + Preview" where
  "preview rnd srt filteredRows selectedAttributes datasetAttributes groupBy aggregations sortSpec
       rowLimit =
     (let columns = previewColumns selectedAttributes datasetAttributes groupBy aggregations
      in case previewRows rnd srt filteredRows columns groupBy aggregations sortSpec of
           Inl e \<Rightarrow> Inl e
         | Inr rows \<Rightarrow> Inr \<lparr>p_rows = slice0 rows rowLimit, p_columns = columns\<rparr>)"

text \<open>A sorting function to evaluate with: insertion from the right, an element going
  before the first one it does not compare greater than.\<close>

fun insertBy :: "('a \<Rightarrow> 'a \<Rightarrow> int) \<Rightarrow> 'a \<Rightarrow> 'a list \<Rightarrow> 'a list" where
  "insertBy cmp x [] = [x]"
| "insertBy cmp x (y # ys) = (if 0 < cmp x y then y # insertBy cmp x ys else x # y # ys)"

definition insertionSort :: "('a \<Rightarrow> 'a \<Rightarrow> int) \<Rightarrow> 'a list \<Rightarrow> 'a list" where
  "insertionSort cmp xs = foldr (insertBy cmp) xs []"

text \<open>A rounding to evaluate with: none. The sums of the small whole numbers it is used
  on are doubles, which rounding leaves as they are.\<close>

definition exact :: "rat \<Rightarrow> jsnum" where
  "exact q = Fin q"

section \<open>Notions the properties are stated with\<close>

text \<open>The distinct elements of a list, each at the place of its first occurrence.\<close>

fun firstSeen :: "'a list \<Rightarrow> 'a list" where
  "firstSeen [] = []"
| "firstSeen (x # xs) = x # filter (\<lambda>y. y \<noteq> x) (firstSeen xs)"

text \<open>The row of one group, from the rows \<open>rs\<close> that have its key: the base row made
  from the first of them, then every row accumulated into it in turn.\<close>

definition addRow :: "(rat \<Rightarrow> jsnum) \<Rightarrow> AggregationDef list \<Rightarrow> Row \<Rightarrow> Row \<Rightarrow> Row" where
  "addRow rnd aggregations gobj r = foldl (accumulate rnd r) gobj aggregations"

definition groupRow :: "(rat \<Rightarrow> jsnum) \<Rightarrow> string list \<Rightarrow> AggregationDef list \<Rightarrow> Row list \<Rightarrow> Row" where
  "groupRow rnd groupBy aggregations rs =
     (case rs of
        [] \<Rightarrow> []
      | r0 # _ \<Rightarrow> foldl (addRow rnd aggregations) (mkBase groupBy aggregations r0) rs)"

text \<open>The sum of a list of numbers as JavaScript adds them up from 0, one after the
  other, rounding each time.\<close>

definition js_sum :: "(rat \<Rightarrow> jsnum) \<Rightarrow> jsnum list \<Rightarrow> jsnum" where
  "js_sum rnd vs = foldl (js_add rnd) (Fin 0) vs"

text \<open>
  A parser of delimited text, to read back what the serializer writes: fields are
  separated by commas and records by newlines; a field that opens with a double quote
  runs to its closing double quote, two double quotes in a row inside it standing for
  one; a double quote anywhere else, text after a closing quote and a quote left open
  are malformed (\<open>None\<close>). The result starts with the record and the field being read.
\<close>

datatype pstate = FieldStart | InPlain | InQuoted | AfterQuote

definition addChar :: "char \<Rightarrow> string list list option \<Rightarrow> string list list option" where
  "addChar c res =
     (case res of Some ((f # fs) # rs) \<Rightarrow> Some (((c # f) # fs) # rs) | _ \<Rightarrow> None)"

definition newField :: "string list list option \<Rightarrow> string list list option" where
  "newField res = (case res of Some (fs # rs) \<Rightarrow> Some (([] # fs) # rs) | _ \<Rightarrow> None)"

definition newRecord :: "string list list option \<Rightarrow> string list list option" where
  "newRecord res = (case res of Some rs \<Rightarrow> Some ([[]] # rs) | None \<Rightarrow> None)"

fun csvParse :: "pstate \<Rightarrow> string \<Rightarrow> string list list option" where
  "csvParse st [] = (if st = InQuoted then None else Some [[[]]])"
| "csvParse st (c # cs) =
     (if st = InQuoted then
        (if c = dquote then csvParse AfterQuote cs else addChar c (csvParse InQuoted cs))
      else if c = dquote then
        (if st = FieldStart then csvParse InQuoted cs
         else if st = AfterQuote then addChar dquote (csvParse InQuoted cs)
         else None)
      else if c = comma then newField (csvParse FieldStart cs)
      else if c = newline then newRecord (csvParse FieldStart cs)
      else if st = AfterQuote then None
      else addChar c (csvParse InPlain cs))"

text \<open>Several characters put in front of the field being read; a text that the
  serializer quotes; a text that can stand unquoted; a text that reads back either
  way.\<close>

definition addChars :: "string \<Rightarrow> string list list option \<Rightarrow> string list list option" where
  "addChars t res = foldr addChar t res"

definition needsQuotes :: "string \<Rightarrow> bool" where
  "needsQuotes t = (comma \<in> set t \<or> dquote \<in> set t)"

definition plainText :: "string \<Rightarrow> bool" where
  "plainText t = (comma \<notin> set t \<and> dquote \<notin> set t \<and> newline \<notin> set t)"

definition readable :: "string \<Rightarrow> bool" where
  "readable t = (needsQuotes t \<or> plainText t)"

text \<open>The columns an aggregation writes to.\<close>

definition aggColumns :: "AggregationDef \<Rightarrow> string list" where
  "aggColumns a =
     (if a_func a = F_avg then [sumKey (a_attribute a), cntKey (a_attribute a)]
      else [col (a_func a) (a_attribute a)])"

section \<open>Properties of the filter evaluator\<close>

lemma split_nonempty: "split sep s \<noteq> []"
  by (induction s) (auto split: list.splits)















text \<open>
  Claim C5. Whatever the filters, the rows \<^verbatim>\<open>applyFilters\<close> returns are rows of its
  input, in the order of the input; with no filter it returns the input unchanged.
\<close>

theorem applyFilters_subset_identity:
  "set (applyFilters dp rows F) \<subseteq> set rows \<and> subseq (applyFilters dp rows F) rows
   \<and> applyFilters dp rows [] = rows"
  by (simp add: applyFilters_def)

theorem applyFilters_subset_identity_witness:
  "applyFilters isoDateOnly [[(''a'', Str ''foobar'')], [(''a'', Str ''bar'')]]
     [\<lparr>f_id = ''1'', f_attribute = ''a'', f_operator = ''contains'', f_value = ''foo''\<rparr>]
     = [[(''a'', Str ''foobar'')]]
   \<and> set [[(''a'', Str ''foobar'')]] \<subseteq> set [[(''a'', Str ''foobar'')], [(''a'', Str ''bar'')]]"
  using applyFilters_subset_identity [of isoDateOnly "[[(''a'', Str ''foobar'')], [(''a'', Str ''bar'')]]"
      "[\<lparr>f_id = ''1'', f_attribute = ''a'', f_operator = ''contains'', f_value = ''foo''\<rparr>]"]
  by (simp add: applyFilters_def filterHolds_def get_def safe_def String_def toLowerCase_def
      lowerChar_def)

lemma js_lt_NaN: "\<not> js_lt NaN a" "\<not> js_lt a NaN"
  by (cases a; simp)+

lemma js_le_NaN: "\<not> js_le NaN a" "\<not> js_le a NaN"
  by (cases a; simp)+

lemma get_absent: "map_of row k = None \<Longrightarrow> get row k = Undefined"
  by (simp add: get_def)

text \<open>
  Claim C6 says that a filter on an attribute the row does not have keeps the row. It
  does not: the absent value is compared as the empty string, and the row below is
  dropped by an \<^verbatim>\<open>=\<close> filter on the attribute \<open>a\<close> it lacks.
\<close>

theorem absent_attribute_counterexample:
  "map_of [(''b'', Str ''x'')] ''a'' = None
   \<and> \<not> filterHolds isoDateOnly [(''b'', Str ''x'')]
        \<lparr>f_id = ''1'', f_attribute = ''a'', f_operator = ''='', f_value = ''x''\<rparr>
   \<and> applyFilters isoDateOnly [[(''b'', Str ''x'')]]
        [\<lparr>f_id = ''1'', f_attribute = ''a'', f_operator = ''='', f_value = ''x''\<rparr>] = []"
  by (simp add: applyFilters_def filterHolds_def get_def safe_def String_def)

text \<open>
  Claim C6, as amended. A filter whose operator is none of those the \<^verbatim>\<open>switch\<close> knows
  holds of every row, whether the row has the attribute or not: filters of that kind
  keep all rows. A known operator is applied to the absent value: on a row without the
  attribute the numeric operators \<^verbatim>\<open>>\<close>, \<^verbatim>\<open>>=\<close>, \<^verbatim>\<open><\<close>, \<^verbatim>\<open><=\<close> and \<^verbatim>\<open>between\<close> never
  hold, and \<^verbatim>\<open>=\<close> holds only of the empty filter value. (The predicate is a total
  function: no branch of it throws.)
\<close>

theorem filter_permissiveness:
  "((\<forall>f\<in>set F. f_operator f \<notin> set operators) \<longrightarrow>
      list_all (filterHolds dp row) F \<and> applyFilters dp rows F = rows)
   \<and> (map_of row (f_attribute f) = None \<longrightarrow>
        (f_operator f \<in> set [''>'', ''>='', ''<'', ''<='', ''between''] \<longrightarrow> \<not> filterHolds dp row f)
        \<and> (f_operator f = ''='' \<longrightarrow> filterHolds dp row f = (f_value f = [])))"
proof (intro conjI impI)
  assume u: "\<forall>f\<in>set F. f_operator f \<notin> set operators"
  have "filterHolds dp r f" if "f \<in> set F" for r f
    using u that by (simp add: filterHolds_def operators_def)
  then have all: "list_all (filterHolds dp r) F" for r
    by (simp add: list_all_iff)
  show "list_all (filterHolds dp row) F" by (rule all)
  show "applyFilters dp rows F = rows" by (simp add: applyFilters_def all)
next
  assume "map_of row (f_attribute f) = None"
  then have v: "get row (f_attribute f) = Undefined" by (rule get_absent)
  show "\<not> filterHolds dp row f"
    if "f_operator f \<in> set [''>'', ''>='', ''<'', ''<='', ''between'']"
    using that v
    by (auto simp: filterHolds_def Let_def Number_def js_gt_def js_ge_def js_lt_NaN js_le_NaN)
  show "filterHolds dp row f = (f_value f = [])" if "f_operator f = ''=''"
    using that v by (auto simp: filterHolds_def Let_def safe_def String_def)
qed

theorem filter_permissiveness_witness:
  "list_all (\<lambda>f. f_operator f \<notin> set operators)
     [\<lparr>f_id = ''1'', f_attribute = ''a'', f_operator = ''like'', f_value = ''x''\<rparr>]
   \<and> applyFilters isoDateOnly [[(''b'', Str ''x'')]]
        [\<lparr>f_id = ''1'', f_attribute = ''a'', f_operator = ''like'', f_value = ''x''\<rparr>]
      = [[(''b'', Str ''x'')]]
   \<and> map_of [(''b'', Str ''x'')] ''a'' = None
   \<and> \<not> filterHolds isoDateOnly [(''b'', Str ''x'')]
        \<lparr>f_id = ''2'', f_attribute = ''a'', f_operator = ''>'', f_value = ''0''\<rparr>"
proof -
  let ?u = "\<lparr>f_id = ''1'', f_attribute = ''a'', f_operator = ''like'', f_value = ''x''\<rparr>"
  let ?n = "\<lparr>f_id = ''2'', f_attribute = ''a'', f_operator = ''>'', f_value = ''0''\<rparr>"
  let ?row = "[(''b'', Str ''x'')]"
  have u: "\<forall>f\<in>set [?u]. f_operator f \<notin> set operators" by (simp add: operators_def)
  have a: "map_of ?row (f_attribute ?n) = None" by simp
  have o: "f_operator ?n \<in> set [''>'', ''>='', ''<'', ''<='', ''between'']" by simp
  note t = filter_permissiveness [of "[?u]" isoDateOnly ?row "[?row]" ?n]
  from t u have "applyFilters isoDateOnly [?row] [?u] = [?row]" by blast
  moreover from t a o have "\<not> filterHolds isoDateOnly ?row ?n" by blast
  ultimately show ?thesis using u a by (simp add: list_all_iff)
qed

section \<open>Properties of the aggregation engine\<close>

subsection \<open>One row per key\<close>

lemma get_put: "get (put r k v) k' = (if k' = k then v else get r k')"
  by (simp add: get_def put_def update_conv')

lemma get_Nil: "get [] k = Undefined"
  by (simp add: get_def)

lemma set_firstSeen: "set (firstSeen xs) = set xs"
  by (induction xs) auto

lemma distinct_firstSeen: "distinct (firstSeen xs)"
  by (induction xs) (auto simp: set_firstSeen)

lemma length_firstSeen: "length (firstSeen xs) = card (set xs)"
  using distinct_card [OF distinct_firstSeen, of xs] by (simp add: set_firstSeen)

lemma firstSeen_distinct: "distinct xs \<Longrightarrow> firstSeen xs = xs"
  by (induction xs) (auto simp: set_firstSeen filter_id_conv)

lemma step_map_of:
  "map_of (step rnd g A G r) k =
     (if k = keyFn g r
      then Some (addRow rnd A (case map_of G k of None \<Rightarrow> mkBase g A r | Some gobj \<Rightarrow> gobj) r)
      else map_of G k)"
  by (cases "map_of G (keyFn g r)") (simp_all add: step_def Let_def addRow_def update_conv')

lemma step_keys:
  "map fst (step rnd g A G r) =
     (if keyFn g r \<in> set (map fst G) then map fst G else map fst G @ [keyFn g r])"
proof (cases "map_of G (keyFn g r)")
  case None
  then have "keyFn g r \<notin> fst ` set G" by (simp add: map_of_eq_None_iff)
  with None show ?thesis
    by (simp add: step_def Let_def update_conv' update_keys)
next
  case (Some gobj)
  then have "keyFn g r \<in> fst ` set G" using map_of_SomeD [OF Some] by force
  with Some show ?thesis
    by (simp add: step_def Let_def update_keys)
qed

lemma loop_keys:
  "map fst (foldl (step rnd g A) G rows) =
     map fst G @ filter (\<lambda>k. k \<notin> set (map fst G)) (firstSeen (map (keyFn g) rows))"
proof (induction rows arbitrary: G)
  case Nil
  show ?case by simp
next
  case (Cons r rows)
  let ?k = "keyFn g r" and ?ys = "firstSeen (map (keyFn g) rows)"
  show ?case
  proof (cases "?k \<in> fst ` set G")
    case True
    have "filter (\<lambda>x. x \<noteq> ?k \<and> x \<notin> fst ` set G) ?ys = filter (\<lambda>x. x \<notin> fst ` set G) ?ys"
      using True by (intro filter_cong) auto
    with True show ?thesis by (simp add: Cons.IH step_keys)
  next
    case False
    have "filter (\<lambda>x. x \<noteq> ?k \<and> x \<notin> fst ` set G) ?ys
          = filter (\<lambda>x. x \<notin> insert ?k (fst ` set G)) ?ys"
      by (intro filter_cong) auto
    with False show ?thesis by (simp add: Cons.IH step_keys)
  qed
qed

lemma loop_map_of:
  "map_of (foldl (step rnd g A) G rows) k =
     (case [r\<leftarrow>rows. keyFn g r = k] of
        [] \<Rightarrow> map_of G k
      | r0 # rs \<Rightarrow>
          Some (foldl (addRow rnd A)
                  (case map_of G k of None \<Rightarrow> mkBase g A r0 | Some gobj \<Rightarrow> gobj) (r0 # rs)))"
proof (induction rows arbitrary: G)
  case Nil
  show ?case by simp
next
  case (Cons r rows)
  show ?case
    by (simp add: Cons.IH step_map_of split: list.splits option.splits)
qed

lemma alist_by_keys:
  "distinct (map fst xs) \<Longrightarrow> xs = map (\<lambda>k. (k, the (map_of xs k))) (map fst xs)"
proof (induction xs)
  case Nil
  show ?case by simp
next
  case (Cons p xs)
  obtain k v where p: "p = (k, v)" by (cases p)
  from Cons.prems p have notin: "k \<notin> fst ` set xs" and d: "distinct (map fst xs)" by auto
  have "map (\<lambda>k'. (k', the (map_of (p # xs) k'))) (map fst xs)
        = map (\<lambda>k'. (k', the (map_of xs k'))) (map fst xs)"
    using notin p by (intro map_cong) auto
  with Cons.IH [OF d] p show ?case by simp
qed

lemma groupsLoop_char:
  "groupsLoop rnd rows g A =
     map (\<lambda>k. (k, groupRow rnd g A [r\<leftarrow>rows. keyFn g r = k])) (firstSeen (map (keyFn g) rows))"
proof -
  let ?G = "groupsLoop rnd rows g A"
  have keys: "map fst ?G = firstSeen (map (keyFn g) rows)"
    by (simp add: groupsLoop_def loop_keys)
  then have d: "distinct (map fst ?G)" by (simp add: distinct_firstSeen)
  have val: "the (map_of ?G k) = groupRow rnd g A [r\<leftarrow>rows. keyFn g r = k]"
    if "k \<in> set (firstSeen (map (keyFn g) rows))" for k
  proof -
    from that have "[r\<leftarrow>rows. keyFn g r = k] \<noteq> []"
      by (auto simp: set_firstSeen filter_empty_conv)
    then show ?thesis
      by (simp add: groupsLoop_def loop_map_of groupRow_def split: list.splits)
  qed
  have "?G = map (\<lambda>k. (k, the (map_of ?G k))) (map fst ?G)"
    by (rule alist_by_keys [OF d])
  also have "\<dots> = map (\<lambda>k. (k, groupRow rnd g A [r\<leftarrow>rows. keyFn g r = k])) (firstSeen (map (keyFn g) rows))"
    unfolding keys by (intro map_cong) (simp_all add: val)
  finally show ?thesis .
qed

subsection \<open>When the engine returns\<close>

lemma visitKeys_eq: "visitKeys (map fst gobj) = (if gobj = [] then Inr () else Inl ReferenceError)"
  by (cases gobj) simp_all

lemma finalize_eq:
  "finalize G = (if list_all (\<lambda>p. snd p = []) G then Inr () else Inl ReferenceError)"
  by (induction G rule: finalize.induct) (simp_all add: visitKeys_eq)

lemma groupAndAggregate_eq:
  "groupAndAggregate rnd rows g A =
     (if list_all (\<lambda>p. snd p = []) (groupsLoop rnd rows g A)
      then Inr (map snd (groupsLoop rnd rows g A)) else Inl ReferenceError)"
  by (simp add: groupAndAggregate_def Let_def finalize_eq)

lemma put_nonempty: "put r k v \<noteq> []"
  by (simp add: put_def)

lemma initAgg_nonempty: "initAgg base a \<noteq> []"
  by (cases "a_func a") (simp_all add: initAgg_def put_nonempty)

lemma accumulate_nonempty: "accumulate rnd r gobj a \<noteq> []"
  by (cases "a_func a") (simp_all add: accumulate_def Let_def put_nonempty)

lemma foldl_nonempty:
  assumes "\<And>b a. f b a \<noteq> []" "b \<noteq> [] \<or> xs \<noteq> []"
  shows "foldl f b xs \<noteq> []"
  using assms(2) by (induction xs arbitrary: b) (simp_all add: assms(1))

lemma foldl_stays_nonempty:
  assumes "\<And>b a. b \<noteq> [] \<Longrightarrow> f b a \<noteq> []" "b \<noteq> []"
  shows "foldl f b xs \<noteq> []"
  using assms(2) by (induction xs arbitrary: b) (simp_all add: assms(1))

lemma mkBase_nonempty:
  assumes "g \<noteq> [] \<or> A \<noteq> []"
  shows "mkBase g A r \<noteq> []"
proof (cases "A = []")
  case True
  with assms have "g \<noteq> []" by simp
  then have "foldl (\<lambda>base g. put base g (get r g)) [] g \<noteq> []"
    by (intro foldl_nonempty) (simp_all add: put_nonempty)
  with True show ?thesis by (simp add: mkBase_def)
next
  case False
  then show ?thesis
    unfolding mkBase_def by (intro foldl_nonempty initAgg_nonempty) simp
qed

lemma addRow_nonempty: "gobj \<noteq> [] \<Longrightarrow> addRow rnd A gobj r \<noteq> []"
  unfolding addRow_def by (intro foldl_nonempty accumulate_nonempty) simp

lemma groupRow_nonempty:
  assumes "rs \<noteq> []" "g \<noteq> [] \<or> A \<noteq> []"
  shows "groupRow rnd g A rs \<noteq> []"
proof -
  obtain r0 rs' where rs: "rs = r0 # rs'" using assms(1) by (cases rs) auto
  have "foldl (addRow rnd A) (mkBase g A r0) rs \<noteq> []"
    by (intro foldl_stays_nonempty addRow_nonempty mkBase_nonempty assms(2))
  then show ?thesis by (simp add: rs groupRow_def)
qed

text \<open>With a row to group, and a group-by attribute or an aggregation to give the group
  row a key, the closing loops throw. With neither, the group rows have no key and
  are returned.\<close>

lemma groupAndAggregate_throws:
  assumes "rows \<noteq> []" "g \<noteq> [] \<or> A \<noteq> []"
  shows "groupAndAggregate rnd rows g A = Inl ReferenceError"
proof -
  obtain r rs where rows: "rows = r # rs" using assms(1) by (cases rows) auto
  let ?k = "keyFn g r"
  have k: "?k \<in> set (firstSeen (map (keyFn g) rows))" by (simp add: rows)
  have "[r\<leftarrow>rows. keyFn g r = ?k] \<noteq> []" by (simp add: rows)
  then have "groupRow rnd g A [r\<leftarrow>rows. keyFn g r = ?k] \<noteq> []"
    by (rule groupRow_nonempty) (rule assms(2))
  with k have "\<not> list_all (\<lambda>p. snd p = []) (groupsLoop rnd rows g A)"
    unfolding groupsLoop_char list_all_iff by force
  then show ?thesis by (simp add: groupAndAggregate_eq)
qed

lemma foldl_keep: "foldl (\<lambda>b a. b) b xs = b"
  by (induction xs) simp_all

lemma groupAndAggregate_returns:
  "groupAndAggregate rnd rows [] [] = Inr (map (\<lambda>k. []) (firstSeen (map (keyFn []) rows)))"
proof -
  have "groupRow rnd [] [] rs = []" for rs
    by (cases rs) (simp_all add: groupRow_def addRow_def [abs_def] mkBase_def foldl_keep)
  then show ?thesis
    by (simp add: groupAndAggregate_eq groupsLoop_char list_all_iff o_def)
qed

subsection \<open>What an aggregation does to a column\<close>

lemma col_eq: "(col fn x = col fn' y) = (fn = fn' \<and> x = y)"
  by (cases fn; cases fn') (simp_all add: col_def)

lemma col_not_key: "col fn x \<noteq> sumKey y" "col fn x \<noteq> cntKey y"
  by (cases fn; simp add: col_def sumKey_def cntKey_def)+

lemma col_in_aggColumns:
  "fn \<noteq> F_avg \<Longrightarrow> col fn x \<in> set (aggColumns a) \<longleftrightarrow> a_func a = fn \<and> a_attribute a = x"
  by (auto simp: aggColumns_def col_eq col_not_key)

lemma accumulate_other:
  "c \<notin> set (aggColumns a) \<Longrightarrow> get (accumulate rnd r gobj a) c = get gobj c"
  by (cases "a_func a") (auto simp: accumulate_def aggColumns_def Let_def get_put)

lemma initAgg_other:
  "c \<notin> set (aggColumns a) \<Longrightarrow> get (initAgg base a) c = get base c"
  by (cases "a_func a") (auto simp: initAgg_def aggColumns_def get_put)

lemma fold_col:
  assumes "\<And>a gobj. \<not> P a \<Longrightarrow> get (f gobj a) c = get gobj c"
    and "\<And>a gobj. P a \<Longrightarrow> get (f gobj a) c = F (get gobj c)"
  shows "get (foldl f gobj A) c = (F ^^ length (filter P A)) (get gobj c)"
proof (induction A arbitrary: gobj)
  case Nil
  show ?case by simp
next
  case (Cons a A)
  show ?case
    by (cases "P a") (simp_all add: Cons.IH assms funpow_swap1)
qed

lemma fold_untouched:
  assumes "\<And>a gobj. a \<in> set A \<Longrightarrow> get (f gobj a) c = get gobj c"
  shows "get (foldl f gobj A) c = get gobj c"
  using assms by (induction A arbitrary: gobj) simp_all


subsection \<open>sum\<close>

lemma accumulate_sum:
  "a_func a = F_sum \<Longrightarrow> a_attribute a = x \<Longrightarrow>
   get (accumulate rnd r gobj a) (col F_sum x) = js_plus rnd (get gobj (col F_sum x)) (Num (Number (get r x)))"
  by (simp add: accumulate_def Let_def get_put)

lemma initAgg_sum:
  "a_func a = F_sum \<Longrightarrow> a_attribute a = x \<Longrightarrow> get (initAgg base a) (col F_sum x) = Num (Fin 0)"
  by (simp add: initAgg_def get_put)

lemma funpow_const: "0 < n \<Longrightarrow> ((\<lambda>_. c) ^^ n) (v :: 'a) = (c :: 'a)"
  by (cases n) simp_all

lemma addRow_sum:
  assumes "length [a\<leftarrow>A. a_func a = F_sum \<and> a_attribute a = x] = 1"
  shows "get (addRow rnd A gobj r) (col F_sum x)
         = js_plus rnd (get gobj (col F_sum x)) (Num (Number (get r x)))"
proof -
  have "get (foldl (accumulate rnd r) gobj A) (col F_sum x)
        = ((\<lambda>v. js_plus rnd v (Num (Number (get r x))))
             ^^ length [a\<leftarrow>A. a_func a = F_sum \<and> a_attribute a = x]) (get gobj (col F_sum x))"
    by (rule fold_col) (simp_all add: accumulate_other col_in_aggColumns accumulate_sum)
  then show ?thesis by (simp add: assms addRow_def)
qed

lemma mkBase_sum:
  assumes "length [a\<leftarrow>A. a_func a = F_sum \<and> a_attribute a = x] = 1"
  shows "get (mkBase g A r) (col F_sum x) = Num (Fin 0)"
proof -
  have "get (foldl initAgg b A) (col F_sum x)
        = ((\<lambda>_. Num (Fin 0)) ^^ length [a\<leftarrow>A. a_func a = F_sum \<and> a_attribute a = x])
            (get b (col F_sum x))" for b
    by (rule fold_col) (simp_all add: initAgg_other col_in_aggColumns initAgg_sum)
  then show ?thesis by (simp add: assms mkBase_def)
qed

lemma rows_sum:
  assumes "length [a\<leftarrow>A. a_func a = F_sum \<and> a_attribute a = x] = 1"
    and "get gobj (col F_sum x) = Num s"
  shows "get (foldl (addRow rnd A) gobj rs) (col F_sum x)
         = Num (foldl (js_add rnd) s (map (\<lambda>r. Number (get r x)) rs))"
  using assms(2)
proof (induction rs arbitrary: gobj s)
  case Nil
  then show ?case by simp
next
  case (Cons r rs)
  have "get (addRow rnd A gobj r) (col F_sum x) = Num (js_add rnd s (Number (get r x)))"
    by (simp add: addRow_sum [OF assms(1)] Cons.prems js_plus_def Number_def)
  from Cons.IH [OF this] show ?case by simp
qed

lemma groupRow_sum:
  assumes "length [a\<leftarrow>A. a_func a = F_sum \<and> a_attribute a = x] = 1" and "rs \<noteq> []"
  shows "get (groupRow rnd g A rs) (col F_sum x) = Num (js_sum rnd (map (\<lambda>r. Number (get r x)) rs))"
proof -
  obtain r0 rs' where rs: "rs = r0 # rs'" using assms(2) by (cases rs) auto
  show ?thesis
    unfolding rs groupRow_def js_sum_def list.case
    by (rule rows_sum [OF assms(1) mkBase_sum [OF assms(1)]])
qed

lemma js_add_NaN_right: "js_add rnd a NaN = NaN"
  by (cases a) simp_all

lemma foldl_js_add_NaN: "foldl (js_add rnd) NaN vs = NaN"
  by (induction vs) simp_all

lemma foldl_js_add_poisoned: "NaN \<in> set vs \<Longrightarrow> foldl (js_add rnd) s vs = NaN"
  by (induction vs arbitrary: s) (auto simp: js_add_NaN_right foldl_js_add_NaN)

subsection \<open>group-by columns\<close>

lemma groupBy_copy:
  "get (foldl (\<lambda>base g. put base g (get r g)) b gs) c = (if c \<in> set gs then get r c else get b c)"
  by (induction gs arbitrary: b) (simp_all add: get_put)

lemma mkBase_other:
  assumes "\<forall>a\<in>set A. c \<notin> set (aggColumns a)"
  shows "get (mkBase g A r) c = (if c \<in> set g then get r c else Undefined)"
proof -
  have "get (foldl initAgg b A) c = get b c" for b
    using assms by (intro fold_untouched) (simp add: initAgg_other)
  then show ?thesis by (simp add: mkBase_def groupBy_copy get_Nil)
qed

lemma addRow_other:
  assumes "\<forall>a\<in>set A. c \<notin> set (aggColumns a)"
  shows "get (addRow rnd A gobj r) c = get gobj c"
  unfolding addRow_def using assms by (intro fold_untouched) (simp add: accumulate_other)

lemma rows_other:
  assumes "\<forall>a\<in>set A. c \<notin> set (aggColumns a)"
  shows "get (foldl (addRow rnd A) gobj rs) c = get gobj c"
  by (induction rs arbitrary: gobj) (simp_all add: addRow_other [OF assms])

lemma groupRow_other:
  assumes "\<forall>a\<in>set A. c \<notin> set (aggColumns a)"
  shows "get (groupRow rnd g A (r0 # rs)) c = (if c \<in> set g then get r0 c else Undefined)"
  by (simp add: groupRow_def addRow_other [OF assms] rows_other [OF assms] mkBase_other [OF assms])

lemma keyFn_cong: "(\<And>c. c \<in> set g \<Longrightarrow> get r c = get r' c) \<Longrightarrow> keyFn g r = keyFn g r'"
  by (simp add: keyFn_def cong: map_cong)

lemma keyFn_groupRow:
  assumes "\<forall>a\<in>set A. \<forall>c\<in>set (aggColumns a). c \<notin> set g"
  shows "keyFn g (groupRow rnd g A (r0 # rs)) = keyFn g r0"
proof (rule keyFn_cong)
  fix c assume c: "c \<in> set g"
  with assms have "\<forall>a\<in>set A. c \<notin> set (aggColumns a)" by blast
  from groupRow_other [OF this] c show "get (groupRow rnd g A (r0 # rs)) c = get r0 c" by simp
qed

text \<open>No aggregation writes a column \<^verbatim>\<open>avg(x)\<close>: a group row has one only when
  \<^verbatim>\<open>avg(x)\<close> is itself the name of a group-by attribute.\<close>

lemma avg_column_absent:
  assumes "col F_avg x \<notin> set g" "(k, gobj) \<in> set (groupsLoop rnd rows g A)"
  shows "get gobj (col F_avg x) = Undefined"
proof -
  have no: "\<forall>a\<in>set A. col F_avg x \<notin> set (aggColumns a)"
    by (auto simp: aggColumns_def col_eq col_not_key)
  from assms(2) have "k \<in> set (map (keyFn g) rows)"
    and gobj: "gobj = groupRow rnd g A [r\<leftarrow>rows. keyFn g r = k]"
    by (auto simp: groupsLoop_char set_firstSeen)
  then obtain r0 rs where "[r\<leftarrow>rows. keyFn g r = k] = r0 # rs"
    by (cases "[r\<leftarrow>rows. keyFn g r = k]") (auto simp: filter_empty_conv)
  with gobj groupRow_other [OF no, of rnd g r0 rs] assms(1) show ?thesis by simp
qed

subsection \<open>The claims about aggregation\<close>

text \<open>
  Claim C1 says that an \<^verbatim>\<open>avg\<close> aggregation on \<open>x\<close> yields the mean of each group in a
  column \<^verbatim>\<open>avg(x)\<close> and hides the running sum and count. The engine never divides and
  never returns the group: for the two rows with \<open>x = 10\<close> and \<open>x = 20\<close> the row loop
  leaves the accumulators \<^verbatim>\<open>__sum_x = 30\<close> and \<^verbatim>\<open>__cnt_x = 2\<close> in the group row and no
  column \<^verbatim>\<open>avg(x)\<close>, and the closing loops, which were to finalize it, throw
  \<^verbatim>\<open>ReferenceError\<close>. The claim has a result row with \<^verbatim>\<open>avg(x) = 15\<close>.
\<close>

theorem avg_not_finalized:
  "groupsLoop exact [[(''x'', Num (Fin 10))], [(''x'', Num (Fin 20))]] []
     [\<lparr>a_attribute = ''x'', a_func = F_avg\<rparr>]
   = [([], [(''__sum_x'', Num (Fin 30)), (''__cnt_x'', Num (Fin 2))])]
   \<and> get [(''__sum_x'', Num (Fin 30)), (''__cnt_x'', Num (Fin 2))] (col F_avg ''x'') = Undefined
   \<and> groupAndAggregate exact [[(''x'', Num (Fin 10))], [(''x'', Num (Fin 20))]] []
        [\<lparr>a_attribute = ''x'', a_func = F_avg\<rparr>] = Inl ReferenceError"
  by code_simp

text \<open>
  Claim C2 says that a value that fails numeric coercion adds 0 to the running total of
  its group, so that the final sum is never spoilt. It adds \<^verbatim>\<open>NaN\<close>: after the rows 10,
  \<^verbatim>\<open>abc\<close> and 5 the running total of the group is \<^verbatim>\<open>NaN\<close>, not 15. (No final value
  comes out: the closing loops throw.)
\<close>

theorem sum_poisoned_counterexample:
  "groupsLoop exact [[(''x'', Num (Fin 10))], [(''x'', Str ''abc'')], [(''x'', Num (Fin 5))]] []
     [\<lparr>a_attribute = ''x'', a_func = F_sum\<rparr>]
   = [([], [(''sum(x)'', Num NaN)])]
   \<and> groupAndAggregate exact
        [[(''x'', Num (Fin 10))], [(''x'', Str ''abc'')], [(''x'', Num (Fin 5))]] []
        [\<lparr>a_attribute = ''x'', a_func = F_sum\<rparr>] = Inl ReferenceError"
  by code_simp

text \<open>
  Claim C2, as amended. For a \<^verbatim>\<open>sum\<close> aggregation on \<open>x\<close> that is requested once, the
  running total that the row loop leaves in the column \<^verbatim>\<open>sum(x)\<close> of each group is,
  group by group in first-seen order, the JavaScript sum of \<^verbatim>\<open>Number(r[x])\<close> over the
  rows of the group, whatever the rounding of doubles; and that sum is \<^verbatim>\<open>NaN\<close> as soon
  as one value fails coercion. Nothing is said of a final value.
\<close>

theorem running_sum_of_group:
  assumes "length [a\<leftarrow>A. a_func a = F_sum \<and> a_attribute a = x] = 1"
  shows "map (\<lambda>p. get (snd p) (col F_sum x)) (groupsLoop rnd rows g A)
           = map (\<lambda>k. Num (js_sum rnd (map (\<lambda>r. Number (get r x)) [r\<leftarrow>rows. keyFn g r = k])))
               (firstSeen (map (keyFn g) rows))
         \<and> (NaN \<in> set vs \<longrightarrow> js_sum rnd vs = NaN)"
proof -
  have "get (groupRow rnd g A [r\<leftarrow>rows. keyFn g r = k]) (col F_sum x)
        = Num (js_sum rnd (map (\<lambda>r. Number (get r x)) [r\<leftarrow>rows. keyFn g r = k]))"
    if "k \<in> set (firstSeen (map (keyFn g) rows))" for k
  proof -
    from that have "[r\<leftarrow>rows. keyFn g r = k] \<noteq> []"
      by (auto simp: set_firstSeen filter_empty_conv)
    then show ?thesis by (rule groupRow_sum [OF assms])
  qed
  then show ?thesis
    by (simp add: groupsLoop_char js_sum_def foldl_js_add_poisoned o_def)
qed

theorem running_sum_of_group_witness:
  "length [a\<leftarrow>[\<lparr>a_attribute = ''amount'', a_func = F_sum\<rparr>].
       a_func a = F_sum \<and> a_attribute a = ''amount''] = 1
   \<and> map (\<lambda>p. get (snd p) (col F_sum ''amount''))
       (groupsLoop exact
          [[(''region'', Str ''NA''), (''amount'', Num (Fin 10))],
           [(''region'', Str ''EU''), (''amount'', Str ''n/a'')],
           [(''region'', Str ''NA''), (''amount'', Num (Fin 5))],
           [(''region'', Str ''EU''), (''amount'', Num (Fin 7))]]
          [''region''] [\<lparr>a_attribute = ''amount'', a_func = F_sum\<rparr>])
     = [Num (Fin 15), Num NaN]
   \<and> NaN \<in> set [Fin 7, NaN] \<and> js_sum exact [Fin 7, NaN] = NaN"
proof -
  let ?A = "[\<lparr>a_attribute = ''amount'', a_func = F_sum\<rparr>]"
  let ?rows = "[[(''region'', Str ''NA''), (''amount'', Num (Fin 10))],
           [(''region'', Str ''EU''), (''amount'', Str ''n/a'')],
           [(''region'', Str ''NA''), (''amount'', Num (Fin 5))],
           [(''region'', Str ''EU''), (''amount'', Num (Fin 7))]]"
  have h: "length [a\<leftarrow>?A. a_func a = F_sum \<and> a_attribute a = ''amount''] = 1" by simp
  have "map (\<lambda>p. get (snd p) (col F_sum ''amount'')) (groupsLoop exact ?rows [''region''] ?A)
        = map (\<lambda>k. Num (js_sum exact (map (\<lambda>r. Number (get r ''amount''))
                 [r\<leftarrow>?rows. keyFn [''region''] r = k])))
            (firstSeen (map (keyFn [''region'']) ?rows))"
    using running_sum_of_group [OF h, of exact ?rows "[''region'']"] by blast
  also have "\<dots> = [Num (Fin 15), Num NaN]" by code_simp
  finally have sums: "map (\<lambda>p. get (snd p) (col F_sum ''amount''))
      (groupsLoop exact ?rows [''region''] ?A) = [Num (Fin 15), Num NaN]" .
  have m: "NaN \<in> set [Fin 7, NaN]" by simp
  have "js_sum exact [Fin 7, NaN] = NaN"
    using running_sum_of_group [OF h, of exact ?rows "[''region'']" "[Fin 7, NaN]"] m by blast
  with sums h m show ?thesis by blast
qed

text \<open>
  Claim C8 says that for a non-empty group \<^verbatim>\<open>min\<close> and \<^verbatim>\<open>max\<close> surface a value that is
  not an infinity. For the one row with \<open>x\<close> the number \<^verbatim>\<open>Infinity\<close>, the row loop leaves
  \<^verbatim>\<open>Infinity\<close> in the column \<^verbatim>\<open>min(x)\<close>, and the closing loops, which their comment says
  clean infinities, throw \<^verbatim>\<open>ReferenceError\<close>: no value is surfaced, and none is cleaned.
\<close>

theorem infinity_not_cleaned:
  "groupsLoop exact [[(''x'', Num PInf)]] [] [\<lparr>a_attribute = ''x'', a_func = F_min\<rparr>]
     = [([], [(''min(x)'', Num PInf)])]
   \<and> groupAndAggregate exact [[(''x'', Num PInf)]] [] [\<lparr>a_attribute = ''x'', a_func = F_min\<rparr>]
     = Inl ReferenceError"
  by code_simp

text \<open>
  Claim C9 says that there are as many result rows as distinct tuples of group-by
  values. Groups are told apart by the joined key text only: the two rows below differ
  in both group-by values, their keys are the same text, and they fall into one group.
  (No result row comes out: the closing loops throw.)
\<close>

theorem key_collision_counterexample:
  "length (groupsLoop exact
       [[(''a'', Str (''x'' @ keySep @ ''y'')), (''b'', Str ''z'')],
        [(''a'', Str ''x''), (''b'', Str (''y'' @ keySep @ ''z''))]] [''a'', ''b''] []) = 1
   \<and> card ((\<lambda>r. map (get r) [''a'', ''b'']) `
        set [[(''a'', Str (''x'' @ keySep @ ''y'')), (''b'', Str ''z'')],
             [(''a'', Str ''x''), (''b'', Str (''y'' @ keySep @ ''z''))]]) = 2
   \<and> groupAndAggregate exact
       [[(''a'', Str (''x'' @ keySep @ ''y'')), (''b'', Str ''z'')],
        [(''a'', Str ''x''), (''b'', Str (''y'' @ keySep @ ''z''))]] [''a'', ''b''] []
     = Inl ReferenceError"
proof -
  have "length (groupsLoop exact
       [[(''a'', Str (''x'' @ keySep @ ''y'')), (''b'', Str ''z'')],
        [(''a'', Str ''x''), (''b'', Str (''y'' @ keySep @ ''z''))]] [''a'', ''b''] []) = 1"
    by code_simp
  moreover have "card ((\<lambda>r. map (get r) [''a'', ''b'']) `
        set [[(''a'', Str (''x'' @ keySep @ ''y'')), (''b'', Str ''z'')],
             [(''a'', Str ''x''), (''b'', Str (''y'' @ keySep @ ''z''))]]) = 2"
    by (simp add: get_def keySep_def)
  moreover have "groupAndAggregate exact
       [[(''a'', Str (''x'' @ keySep @ ''y'')), (''b'', Str ''z'')],
        [(''a'', Str ''x''), (''b'', Str (''y'' @ keySep @ ''z''))]] [''a'', ''b''] []
     = Inl ReferenceError"
    by code_simp
  ultimately show ?thesis by blast
qed

text \<open>
  Claim C9, as amended. The row loop builds one group per distinct key text
  (\<^verbatim>\<open>keyFn\<close>: the group-by values as text, joined by the separator), in the order in
  which the keys are first seen, each group row accumulated from the rows that have the
  key; when the engine returns, it returns the rows of these groups in that order, as
  many as there are distinct key texts. When no aggregation column has the name of a
  group-by attribute, the key text of each group row is the key of its group.
\<close>

theorem one_group_per_key:
  "map fst (groupsLoop rnd rows g A) = firstSeen (map (keyFn g) rows)
   \<and> length (groupsLoop rnd rows g A) = card (keyFn g ` set rows)
   \<and> groupsLoop rnd rows g A
       = map (\<lambda>k. (k, groupRow rnd g A [r\<leftarrow>rows. keyFn g r = k])) (firstSeen (map (keyFn g) rows))
   \<and> (groupAndAggregate rnd rows g A = Inr res \<longrightarrow>
        res = map snd (groupsLoop rnd rows g A) \<and> length res = card (keyFn g ` set rows))
   \<and> ((\<forall>a\<in>set A. \<forall>c\<in>set (aggColumns a). c \<notin> set g) \<longrightarrow>
        map (\<lambda>p. keyFn g (snd p)) (groupsLoop rnd rows g A) = firstSeen (map (keyFn g) rows))"
proof (intro conjI impI)
  show keys: "map fst (groupsLoop rnd rows g A) = firstSeen (map (keyFn g) rows)"
    by (simp add: groupsLoop_char o_def)
  show len: "length (groupsLoop rnd rows g A) = card (keyFn g ` set rows)"
    by (simp add: groupsLoop_char length_firstSeen)
  show "groupsLoop rnd rows g A
       = map (\<lambda>k. (k, groupRow rnd g A [r\<leftarrow>rows. keyFn g r = k])) (firstSeen (map (keyFn g) rows))"
    by (rule groupsLoop_char)
  show "res = map snd (groupsLoop rnd rows g A)" if "groupAndAggregate rnd rows g A = Inr res"
    using that by (simp add: groupAndAggregate_eq split: if_splits)
  then show "length res = card (keyFn g ` set rows)" if "groupAndAggregate rnd rows g A = Inr res"
    using that len by simp
next
  assume disj: "\<forall>a\<in>set A. \<forall>c\<in>set (aggColumns a). c \<notin> set g"
  have "keyFn g (groupRow rnd g A [r\<leftarrow>rows. keyFn g r = k]) = k"
    if "k \<in> set (firstSeen (map (keyFn g) rows))" for k
  proof -
    from that obtain r0 rs where f: "[r\<leftarrow>rows. keyFn g r = k] = r0 # rs"
      by (cases "[r\<leftarrow>rows. keyFn g r = k]") (auto simp: set_firstSeen filter_empty_conv)
    then have "r0 \<in> set [r\<leftarrow>rows. keyFn g r = k]" by simp
    then have "keyFn g r0 = k" by simp
    with keyFn_groupRow [OF disj, of rnd r0 rs] f show ?thesis by simp
  qed
  then have "map (\<lambda>k. keyFn g (groupRow rnd g A [r\<leftarrow>rows. keyFn g r = k]))
               (firstSeen (map (keyFn g) rows)) = map (\<lambda>k. k) (firstSeen (map (keyFn g) rows))"
    by (intro map_cong) simp_all
  then show "map (\<lambda>p. keyFn g (snd p)) (groupsLoop rnd rows g A) = firstSeen (map (keyFn g) rows)"
    by (simp add: groupsLoop_char o_def)
qed

theorem one_group_per_key_witness:
  "groupAndAggregate exact [[(''region'', Str ''NA'')], [(''region'', Str ''EU'')]] [] [] = Inr [[]]
   \<and> length [[] :: Row] = card (keyFn [] ` set [[(''region'', Str ''NA'')], [(''region'', Str ''EU'')]])
   \<and> list_all (\<lambda>a. list_all (\<lambda>c. c \<notin> set [''region'']) (aggColumns a))
     [\<lparr>a_attribute = ''amount'', a_func = F_sum\<rparr>]
   \<and> map (\<lambda>p. keyFn [''region''] (snd p))
       (groupsLoop exact
          [[(''region'', Str ''NA''), (''amount'', Num (Fin 10))],
           [(''region'', Str ''EU''), (''amount'', Num (Fin 7))],
           [(''region'', Str ''NA''), (''amount'', Num (Fin 5))]]
          [''region''] [\<lparr>a_attribute = ''amount'', a_func = F_sum\<rparr>])
     = [''NA'', ''EU'']"
proof -
  let ?A = "[\<lparr>a_attribute = ''amount'', a_func = F_sum\<rparr>]"
  let ?rows = "[[(''region'', Str ''NA''), (''amount'', Num (Fin 10))],
           [(''region'', Str ''EU''), (''amount'', Num (Fin 7))],
           [(''region'', Str ''NA''), (''amount'', Num (Fin 5))]]"
  let ?plain = "[[(''region'', Str ''NA'')], [(''region'', Str ''EU'')]]"
  have r: "groupAndAggregate exact ?plain [] [] = Inr [[]]" by code_simp
  have l: "length [[] :: Row] = card (keyFn [] ` set ?plain)"
    using one_group_per_key [of exact ?plain "[]" "[]" "[[]]"] r by blast
  have d: "\<forall>a\<in>set ?A. \<forall>c\<in>set (aggColumns a). c \<notin> set [''region'']" by code_simp
  have "map (\<lambda>p. keyFn [''region''] (snd p)) (groupsLoop exact ?rows [''region''] ?A)
        = firstSeen (map (keyFn [''region'']) ?rows)"
    using one_group_per_key [of exact ?rows "[''region'']" ?A] d by blast
  also have "\<dots> = [''NA'', ''EU'']" by code_simp
  finally show ?thesis using r l d by (simp add: list_all_iff)
qed

section \<open>Properties of the serializer\<close>

subsection \<open>Lines\<close>

lemma length_split: "length (split sep s) = Suc (length (filter (\<lambda>c. c = sep) s))"
  by (induction s) (auto split: list.splits simp: split_nonempty)

lemma js_includes_single: "js_includes s [c] = (c \<in> set s)"
  by (induction s) auto

lemma set_doubleQuotes: "set (doubleQuotes v) = set v"
  by (induction v) (auto simp: doubleQuotes_def)

lemma set_csvField: "set (csvField v) \<subseteq> insert dquote (set v)"
  by (auto simp: csvField_def set_doubleQuotes)

lemma set_join: "set (join sep xs) \<subseteq> set sep \<union> \<Union> (set ` set xs)"
  by (induction sep xs rule: join.induct) auto

lemma count_join:
  "\<forall>l\<in>set ls. c \<notin> set l \<Longrightarrow> length (filter (\<lambda>x. x = c) (join [c] ls)) = length ls - 1"
  by (induction "[c]" ls rule: join.induct) (auto simp: filter_empty_conv)

lemma rowLine_no_newline:
  assumes "\<forall>c\<in>set columns. newline \<notin> set (cellText r c)"
  shows "newline \<notin> set (join [comma] (map (\<lambda>c. csvField (cellText r c)) columns))"
proof
  assume "newline \<in> set (join [comma] (map (\<lambda>c. csvField (cellText r c)) columns))"
  with set_join [of "[comma]"] obtain c where "c \<in> set columns"
    "newline \<in> set (csvField (cellText r c))"
    by (fastforce simp: comma_def newline_def)
  with set_csvField [of "cellText r c"] assms show False
    by (auto simp: dquote_def newline_def)
qed

text \<open>
  Claim C3 says that the serialized text always splits into as many lines as there are
  rows, plus one, with no trailing newline. For no rows it ends with the newline that
  follows the header, and splits into two lines.
\<close>

theorem csv_line_count_counterexample:
  "length (split newline (toCSV [] [''a''])) = 2 \<and> toCSV [] [''a''] = ''a'' @ [newline]"
  by code_simp

text \<open>
  Claim C3, as amended. When no column name and no cell text contains a newline, the
  serialized text splits at the newlines into one line per row and one for the header,
  if there is a row; with no row it is the header and a newline, which split into two
  lines.
\<close>

theorem csv_line_count:
  assumes "\<forall>c\<in>set columns. newline \<notin> set c"
    and "\<forall>r\<in>set rows. \<forall>c\<in>set columns. newline \<notin> set (cellText r c)"
  shows "length (split newline (toCSV rows columns)) = (if rows = [] then 2 else length rows + 1)"
proof -
  have h: "newline \<notin> set (join [comma] columns)"
    using assms(1) set_join [of "[comma]" columns] by (auto simp: comma_def newline_def)
  let ?lines = "map (\<lambda>r. join [comma] (map (\<lambda>c. csvField (cellText r c)) columns)) rows"
  have "\<forall>l\<in>set ?lines. newline \<notin> set l"
    using assms(2) by (auto simp: rowLine_no_newline)
  then have "length (filter (\<lambda>x. x = newline) (join [newline] ?lines)) = length rows - 1"
    using count_join [of ?lines newline] by simp
  moreover have "filter (\<lambda>x. x = newline) (join [comma] columns) = []"
    using h by (auto simp: filter_empty_conv)
  ultimately show ?thesis
    by (cases rows) (simp_all add: toCSV_def Let_def length_split)
qed

theorem csv_line_count_witness:
  "list_all (\<lambda>c. newline \<notin> set c) [''a'', ''b'']
   \<and> length (split newline
        (toCSV [[(''a'', Str ''x''), (''b'', Num (Fin 1))],
                [(''a'', Str ''y, z''), (''b'', Num (Fin 2))]] [''a'', ''b''])) = 3"
proof -
  let ?rows = "[[(''a'', Str ''x''), (''b'', Num (Fin 1))],
                [(''a'', Str ''y, z''), (''b'', Num (Fin 2))]]"
  let ?cols = "[''a'', ''b'']"
  have c: "\<forall>c\<in>set ?cols. newline \<notin> set c" by code_simp
  have r: "\<forall>r\<in>set ?rows. \<forall>c\<in>set ?cols. newline \<notin> set (cellText r c)" by code_simp
  have "length (split newline (toCSV ?rows ?cols)) = (if ?rows = [] then 2 else length ?rows + 1)"
    by (rule csv_line_count [OF c r])
  then show ?thesis using c by (simp add: list_all_iff)
qed

subsection \<open>Reading the text back\<close>

lemma addChars_Some: "addChars t (Some ((f # fs) # rs)) = Some (((t @ f) # fs) # rs)"
  by (induction t) (simp_all add: addChars_def addChar_def)

lemma parse_plain:
  assumes "plainText p" "st = FieldStart \<or> st = InPlain"
  shows "csvParse st (p @ rest)
         = (if p = [] then csvParse st rest else addChars p (csvParse InPlain rest))"
  using assms
proof (induction p arbitrary: st)
  case Nil
  show ?case by simp
next
  case (Cons c p)
  from Cons.prems have c: "c \<noteq> comma" "c \<noteq> dquote" "c \<noteq> newline" and p: "plainText p"
    by (auto simp: plainText_def)
  have "csvParse st ((c # p) @ rest) = addChar c (csvParse InPlain (p @ rest))"
    using Cons.prems(2) c by auto
  also have "\<dots> = addChar c (if p = [] then csvParse InPlain rest
                             else addChars p (csvParse InPlain rest))"
    using Cons.IH [OF p, of InPlain] by simp
  also have "\<dots> = addChars (c # p) (csvParse InPlain rest)"
    by (simp add: addChars_def)
  finally show ?case by simp
qed

lemma parse_quoted:
  "csvParse InQuoted (doubleQuotes v @ dquote # rest) = addChars v (csvParse AfterQuote rest)"
  by (induction v) (simp_all add: doubleQuotes_def addChars_def)

text \<open>What follows a field: the end of the text, or a comma or newline and more text.\<close>

lemma after_field:
  assumes "rest = [] \<or> (\<exists>more. rest = comma # more) \<or> (\<exists>more. rest = newline # more)"
  shows "csvParse AfterQuote rest = csvParse InPlain rest"
    and "csvParse FieldStart rest = csvParse InPlain rest"
  using assms by (auto simp: comma_def dquote_def newline_def)

lemma parse_field:
  assumes "readable t"
    and rest: "rest = [] \<or> (\<exists>more. rest = comma # more) \<or> (\<exists>more. rest = newline # more)"
  shows "csvParse FieldStart (csvField t @ rest) = addChars t (csvParse InPlain rest)"
proof (cases "needsQuotes t")
  case True
  then have "csvField t = dquote # doubleQuotes t @ [dquote]"
    by (simp add: csvField_def needsQuotes_def js_includes_single)
  then show ?thesis
    by (simp add: parse_quoted after_field(1) [OF rest])
next
  case False
  with assms(1) have p: "plainText t" by (simp add: readable_def)
  from False have "csvField t = t"
    by (simp add: csvField_def needsQuotes_def js_includes_single)
  then show ?thesis
    using parse_plain [OF p, of FieldStart rest] after_field(2) [OF rest]
    by (simp add: addChars_def)
qed

lemma parse_line:
  assumes "vs \<noteq> []" "list_all readable vs" "csvParse InPlain rest = Some ([[]] # rs)"
    and rest: "rest = [] \<or> (\<exists>more. rest = newline # more)"
  shows "csvParse FieldStart (join [comma] (map csvField vs) @ rest) = Some (vs # rs)"
  using assms(1,2)
proof (induction "[comma]" "map csvField vs" arbitrary: vs rule: join.induct)
  case 1
  then show ?case by simp
next
  case (2 x)
  then obtain v where vs: "vs = [v]" by (cases vs) auto
  with 2 have "readable v" by simp
  from parse_field [OF this, of rest] rest show ?case
    by (auto simp: vs assms(3) addChars_Some)
next
  case (3 x y ys)
  then obtain v w ws where vs: "vs = v # w # ws" and x: "x = csvField v"
    and ys: "y # ys = map csvField (w # ws)"
    by (cases vs) (auto simp: map_eq_Cons_conv)
  from 3 vs have r: "readable v" "list_all readable (w # ws)" by simp_all
  have IH: "csvParse FieldStart (join [comma] (map csvField (w # ws)) @ rest) = Some ((w # ws) # rs)"
    using "3.hyps"(1) [OF ys] r(2) by simp
  have "csvParse FieldStart (join [comma] (map csvField vs) @ rest)
        = csvParse FieldStart (csvField v @ comma # join [comma] (map csvField (w # ws)) @ rest)"
    by (simp add: vs)
  also have "\<dots> = addChars v (csvParse InPlain (comma # join [comma] (map csvField (w # ws)) @ rest))"
    by (rule parse_field [OF r(1)]) simp
  also have "\<dots> = addChars v (newField (csvParse FieldStart (join [comma] (map csvField (w # ws)) @ rest)))"
    by (simp add: comma_def dquote_def)
  also have "\<dots> = Some (vs # rs)"
    using IH by (simp add: newField_def addChars_Some vs)
  finally show ?case .
qed

lemma parse_lines:
  assumes "ls \<noteq> []" "list_all (\<lambda>vs. vs \<noteq> [] \<and> list_all readable vs) ls"
  shows "csvParse FieldStart (join [newline] (map (\<lambda>vs. join [comma] (map csvField vs)) ls))
         = Some ls"
  using assms
proof (induction ls)
  case Nil
  then show ?case by simp
next
  case (Cons l ls)
  from Cons.prems have l: "l \<noteq> []" "list_all readable l" by simp_all
  show ?case
  proof (cases ls)
    case Nil
    have "csvParse FieldStart (join [comma] (map csvField l) @ []) = Some (l # [])"
      by (rule parse_line [OF l]) simp_all
    with Nil show ?thesis by simp
  next
    case (Cons m ms)
    let ?tl = "join [newline] (map (\<lambda>vs. join [comma] (map csvField vs)) ls)"
    from Cons.IH Cons.prems Cons have IH: "csvParse FieldStart ?tl = Some ls" by simp
    have "csvParse FieldStart (join [comma] (map csvField l) @ newline # ?tl) = Some (l # ls)"
    proof (rule parse_line [OF l])
      show "csvParse InPlain (newline # ?tl) = Some ([[]] # ls)"
        using IH by (simp add: newRecord_def newline_def dquote_def comma_def)
    qed simp
    with Cons show ?thesis by simp
  qed
qed

lemma csvField_plain: "plainText t \<Longrightarrow> csvField t = t"
  by (simp add: csvField_def plainText_def js_includes_single)

lemma toCSV_as_lines:
  assumes "rows \<noteq> []" "list_all plainText columns"
  shows "toCSV rows columns
         = join [newline] (map (\<lambda>vs. join [comma] (map csvField vs))
             (columns # map (\<lambda>r. map (cellText r) columns) rows))"
proof -
  have h: "map csvField columns = columns"
    using assms(2) by (intro map_idI) (simp add: list_all_iff csvField_plain)
  obtain r rs where rows: "rows = r # rs" using assms(1) by (cases rows) auto
  show ?thesis
    by (simp add: toCSV_def Let_def h rows o_def)
qed

text \<open>
  Claim C4. A cell text with a comma or a double quote is written between double
  quotes with every double quote in it doubled, and the parser reads it back as it was.
  This holds of the field alone and of the field in a table: when the table has a
  column and a row, the column names are plain, and every other cell text is free of
  newlines, parsing the serialized table gives back the column names and every cell
  text.
\<close>

theorem csv_quoting_roundtrip:
  "(needsQuotes v \<longrightarrow>
      csvField v = [dquote] @ doubleQuotes v @ [dquote]
      \<and> csvParse FieldStart (csvField v) = Some [[v]])
   \<and> (columns \<noteq> [] \<and> rows \<noteq> [] \<and> list_all plainText columns
       \<and> list_all (\<lambda>r. list_all (\<lambda>c. readable (cellText r c)) columns) rows \<longrightarrow>
      csvParse FieldStart (toCSV rows columns)
        = Some (columns # map (\<lambda>r. map (cellText r) columns) rows))"
proof (intro conjI impI)
  assume q: "needsQuotes v"
  then show "csvField v = [dquote] @ doubleQuotes v @ [dquote]"
    by (simp add: csvField_def needsQuotes_def js_includes_single)
  from q have "readable v" by (simp add: readable_def)
  from parse_field [OF this, of "[]"] show "csvParse FieldStart (csvField v) = Some [[v]]"
    by (simp add: addChars_Some)
next
  assume a: "columns \<noteq> [] \<and> rows \<noteq> [] \<and> list_all plainText columns
       \<and> list_all (\<lambda>r. list_all (\<lambda>c. readable (cellText r c)) columns) rows"
  let ?ls = "columns # map (\<lambda>r. map (cellText r) columns) rows"
  have "list_all (\<lambda>vs. vs \<noteq> [] \<and> list_all readable vs) ?ls"
    using a by (auto simp: list_all_iff readable_def)
  then have "csvParse FieldStart (join [newline] (map (\<lambda>vs. join [comma] (map csvField vs)) ?ls))
             = Some ?ls"
    by (intro parse_lines) simp_all
  with a show "csvParse FieldStart (toCSV rows columns) = Some ?ls"
    by (simp add: toCSV_as_lines)
qed

theorem csv_quoting_roundtrip_witness:
  "needsQuotes ''y, z''
   \<and> csvField ''y, z'' = [dquote] @ ''y, z'' @ [dquote]
   \<and> csvParse FieldStart
        (toCSV [[(''a'', Str ''x''), (''b'', Num (Fin 1))],
                [(''a'', Str ''y, z''), (''b'', Num (Fin 2))],
                [(''a'', Str (''He said '' @ [dquote] @ ''hi'' @ [dquote])), (''b'', Num (Fin 3))]]
           [''a'', ''b''])
      = Some [[''a'', ''b''], [''x'', ''1''], [''y, z'', ''2''],
              [''He said '' @ [dquote] @ ''hi'' @ [dquote], ''3'']]"
proof -
  let ?rows = "[[(''a'', Str ''x''), (''b'', Num (Fin 1))],
                [(''a'', Str ''y, z''), (''b'', Num (Fin 2))],
                [(''a'', Str (''He said '' @ [dquote] @ ''hi'' @ [dquote])), (''b'', Num (Fin 3))]]"
  let ?cols = "[''a'', ''b'']"
  have q: "needsQuotes ''y, z''" by code_simp
  have f: "csvField ''y, z'' = [dquote] @ doubleQuotes ''y, z'' @ [dquote]"
    using csv_quoting_roundtrip [of "''y, z''"] q by blast
  have d: "doubleQuotes ''y, z'' = ''y, z''" by code_simp
  have h: "?cols \<noteq> [] \<and> ?rows \<noteq> [] \<and> list_all plainText ?cols
       \<and> list_all (\<lambda>r. list_all (\<lambda>c. readable (cellText r c)) ?cols) ?rows"
    by code_simp
  have "csvParse FieldStart (toCSV ?rows ?cols)
        = Some (?cols # map (\<lambda>r. map (cellText r) ?cols) ?rows)"
    using csv_quoting_roundtrip [of "''y, z''" ?cols ?rows] h by blast
  also have "\<dots> = Some [[''a'', ''b''], [''x'', ''1''], [''y, z'', ''2''],
              [''He said '' @ [dquote] @ ''hi'' @ [dquote], ''3'']]"
    by code_simp
  finally show ?thesis using q f d by simp
qed

section \<open>The limit in the query text and the limit of the preview\<close>

text \<open>
  Claim C10. The query text ends with \<^verbatim>\<open> LIMIT 100;\<close> whatever the configuration: the
  row limit is not even among the arguments of \<^verbatim>\<open>sqlPreview\<close>. The rows of the preview
  are the first \<open>rowLimit\<close> rows after sorting, whenever there are rows to sort (without
  grouping and aggregation there always are). A row limit other than 100 is therefore
  not the one the query text shows.
\<close>

theorem limit_text_and_row_cap:
  "suffix '' LIMIT 100;'' (sqlPreview dataset attributes filters groupBy aggregations sortSpec)
   \<and> preview rnd srt rows selected dattrs groupBy aggregations sortSpec n
       = (case previewRows rnd srt rows (previewColumns selected dattrs groupBy aggregations)
                 groupBy aggregations sortSpec of
            Inl e \<Rightarrow> Inl e
          | Inr rs \<Rightarrow> Inr \<lparr>p_rows = slice0 rs n,
                           p_columns = previewColumns selected dattrs groupBy aggregations\<rparr>)
   \<and> (previewRows rnd srt rows (previewColumns selected dattrs groupBy aggregations)
         groupBy aggregations sortSpec = Inr rs \<longrightarrow>
       (\<exists>p. preview rnd srt rows selected dattrs groupBy aggregations sortSpec n = Inr p
            \<and> p_rows p = slice0 rs n
            \<and> (0 \<le> n \<longrightarrow> length (p_rows p) = min (nat n) (length rs)
                           \<and> p_rows p = take (nat n) rs)))
   \<and> (groupBy = [] \<and> aggregations = [] \<longrightarrow>
       (\<exists>rs. previewRows rnd srt rows (previewColumns selected dattrs groupBy aggregations)
                groupBy aggregations sortSpec = Inr rs))"
proof (intro conjI impI)
  show "suffix '' LIMIT 100;'' (sqlPreview dataset attributes filters groupBy aggregations sortSpec)"
    unfolding sqlPreview_def Let_def
    by (intro suffix_appendI) simp
qed (simp_all add: preview_def previewRows_def Let_def slice0_def min.commute)

theorem limit_text_and_row_cap_witness:
  "suffix '' LIMIT 100;''
     (sqlPreview ''T'' [] [] [] [] \<lparr>s_attribute = ''a'', s_direction = ASC\<rparr>)
   \<and> map_sum id p_rows (preview exact insertionSort
        [[(''a'', Num (Fin 3))], [(''a'', Num (Fin 1))], [(''a'', Num (Fin 2))]]
        [''a''] [] [] [] \<lparr>s_attribute = ''a'', s_direction = ASC\<rparr> 2)
      = Inr [[(''a'', Num (Fin 1))], [(''a'', Num (Fin 2))]]"
proof -
  let ?rows = "[[(''a'', Num (Fin 3))], [(''a'', Num (Fin 1))], [(''a'', Num (Fin 2))]]"
  let ?s = "\<lparr>s_attribute = ''a'', s_direction = ASC\<rparr>"
  let ?sorted = "[[(''a'', Num (Fin 1))], [(''a'', Num (Fin 2))], [(''a'', Num (Fin 3))]]"
  note t = limit_text_and_row_cap [of "''T''" "[]" "[]" "[]" "[]" ?s exact insertionSort ?rows
      "[''a'']" "[]" 2 ?sorted]
  have n: "(0::int) \<le> 2" by simp
  have r: "previewRows exact insertionSort ?rows (previewColumns [''a''] [] [] []) [] [] ?s
           = Inr ?sorted"
    by code_simp
  from t have "suffix '' LIMIT 100;'' (sqlPreview ''T'' [] [] [] [] ?s)" by blast
  moreover from t r n obtain p
    where "preview exact insertionSort ?rows [''a''] [] [] [] ?s 2 = Inr p"
      and "p_rows p = take (nat 2) ?sorted"
    by blast
  moreover have "take (nat 2) ?sorted = [[(''a'', Num (Fin 1))], [(''a'', Num (Fin 2))]]"
    by code_simp
  ultimately show ?thesis by simp
qed

end
